theory Spec2Isabelle
  imports Complex_Main "HOL-Library.Word"
begin

section \<open>JavaScript values used by the lambdas\<close>

text \<open>
  A JavaScript string is a sequence of UTF-16 code units; \<open>length\<close>, \<open>slice\<close> and
  \<open>trim\<close> all work on code units.  Numbers that the code uses as positions, sizes and
  counters are modelled as mathematical integers (the lambdas only ever pass integers);
  the back-off delay, which involves \<open>Math.random()\<close>, is a real number.
\<close>

type_synonym code_unit = "16 word"
type_synonym js_string = "code_unit list"

text \<open>A string literal of the source, as code units.\<close>

definition lit :: "string \<Rightarrow> js_string" where
  "lit s = map of_char s"

text \<open>
  \<open>String.prototype.slice(start, end)\<close> and \<open>Array.prototype.slice(start, end)\<close>:
  a negative position counts from the end, every position is clamped to the length, and
  an empty range yields the empty sequence.
\<close>

definition js_slice :: "'a list \<Rightarrow> int \<Rightarrow> int \<Rightarrow> 'a list" where
  "js_slice xs start end =
     (let len = int (length xs);
          from = (if start < 0 then max (len + start) 0 else min start len);
          to = (if end < 0 then max (len + end) 0 else min end len)
      in if from \<ge> to then [] else take (nat (to - from)) (drop (nat from) xs))"

text \<open>
  \<open>String.prototype.trim()\<close> removes leading and trailing white space and line
  terminators: TAB, LF, VT, FF, CR, SP, NBSP, U+1680, U+2000 to U+200A, U+2028, U+2029,
  U+202F, U+205F, U+3000 and the byte-order mark U+FEFF.
\<close>

definition is_js_whitespace :: "code_unit \<Rightarrow> bool" where
  "is_js_whitespace c \<longleftrightarrow>
     c \<in> {0x09, 0x0A, 0x0B, 0x0C, 0x0D, 0x20, 0xA0, 0x1680,
          0x2028, 0x2029, 0x202F, 0x205F, 0x3000, 0xFEFF}
     \<or> (0x2000 \<le> c \<and> c \<le> 0x200A)"

definition js_trim :: "js_string \<Rightarrow> js_string" where
  "js_trim s = rev (dropWhile is_js_whitespace (rev (dropWhile is_js_whitespace s)))"

text \<open>\<open>endsWith\<close>, \<open>startsWith\<close> and \<open>replace\<close> with a global one-character pattern.\<close>

definition js_endsWith :: "js_string \<Rightarrow> js_string \<Rightarrow> bool" where
  "js_endsWith s suffix \<longleftrightarrow>
     length suffix \<le> length s \<and> drop (length s - length suffix) s = suffix"

definition js_startsWith :: "js_string \<Rightarrow> js_string \<Rightarrow> bool" where
  "js_startsWith s prefix \<longleftrightarrow> take (length prefix) s = prefix"

definition js_replace_all :: "code_unit \<Rightarrow> code_unit \<Rightarrow> js_string \<Rightarrow> js_string" where
  "js_replace_all a b s = map (\<lambda>c. if c = a then b else c) s"

text \<open>
  An integer inside a template literal: its decimal digits, with a sign if negative.
  (The integers that occur are array positions, far below the size at which JavaScript
  switches to exponent notation.)
\<close>

fun digits :: "nat \<Rightarrow> js_string" where
  "digits n =
     (if n < 10 then [0x30 + of_nat n] else digits (n div 10) @ [0x30 + of_nat (n mod 10)])"

declare digits.simps [simp del]

definition js_number_to_string :: "int \<Rightarrow> js_string" where
  "js_number_to_string i = (if i < 0 then 0x2D # digits (nat (- i)) else digits (nat i))"

text \<open>
  A destructuring default or \<open>x || d\<close> on a value that is either absent or present:
  \<open>None\<close> is \<open>undefined\<close>.
\<close>

definition or_default :: "'a option \<Rightarrow> 'a \<Rightarrow> 'a" where
  "or_default v d = (case v of None \<Rightarrow> d | Some x \<Rightarrow> x)"

text \<open>
  An error object thrown by a client library.  The code only ever looks at \<open>err.status\<close>
  and \<open>err.response.status\<close>.  What a function throws is such an object, the value
  \<open>undefined\<close> (\<open>throw lastErr\<close> before any error was caught), or the \<open>TypeError\<close> that
  the runtime raises on a property access on \<open>undefined\<close> or \<open>null\<close>.
\<close>

record js_error =
  err_status :: "int option"
  err_response_status :: "int option"

datatype thrown = Thrown js_error | ThrownUndefined | TypeError

text \<open>
  Parsed JSON and other dynamically typed values of the query lambda, with JavaScript's
  truthiness and property access (\<open>v.k\<close> throws on \<open>undefined\<close> and \<open>null\<close> and is
  \<open>undefined\<close> where the property is missing).
\<close>

datatype js_value =
    JUndefined
  | JNull
  | JBool bool
  | JNumber real
  | JString js_string
  | JArray "js_value list"
  | JObject "(js_string \<times> js_value) list"

definition js_falsy :: "js_value \<Rightarrow> bool" where
  "js_falsy v \<longleftrightarrow>
     v = JUndefined \<or> v = JNull \<or> v = JBool False \<or> v = JNumber 0 \<or> v = JString []"

definition js_or :: "js_value \<Rightarrow> js_value \<Rightarrow> js_value" where
  "js_or a b = (if js_falsy a then b else a)"

definition js_get :: "js_value \<Rightarrow> js_string \<Rightarrow> thrown + js_value" where
  "js_get v k =
     (case v of
        JUndefined \<Rightarrow> Inl TypeError
      | JNull \<Rightarrow> Inl TypeError
      | JObject props \<Rightarrow> (case map_of props k of None \<Rightarrow> Inr JUndefined | Some x \<Rightarrow> Inr x)
      | _ \<Rightarrow> Inr JUndefined)"


section \<open>The chunker: \<open>splitText\<close> (pdf-processor)\<close>

text \<open>
  \<^verbatim>\<open>
  function splitText(text, chunkSize = 1000, overlap = 200) {
    const chunks = [];
    const len = text.length;
    let start = 0;
    while (start < len) {
      const end = Math.min(start + chunkSize, len);
      const chunk = text.slice(start, end);
      chunks.push(chunk);
      if (end === len) break;
      start = Math.max(0, end - overlap);
    }
    return chunks;
  }
  \<close>
  The function checks nothing about \<open>chunkSize\<close> and \<open>overlap\<close> and has no \<open>throw\<close>;
  its \<open>while\<close> loop need not end, so the loop lives in the option monad: \<open>None\<close> is a
  run that never returns.
\<close>

partial_function (option) splitText_loop ::
  "js_string \<Rightarrow> int \<Rightarrow> int \<Rightarrow> int \<Rightarrow> js_string list \<Rightarrow> js_string list option" where
  "splitText_loop text chunkSize overlap start chunks =
     (let len = int (length text) in
      if start < len then
        (let end = min (start + chunkSize) len;
             chunk = js_slice text start end;
             chunks' = chunks @ [chunk]
         in if end = len then Some chunks'
            else splitText_loop text chunkSize overlap (max 0 (end - overlap)) chunks')
      else Some chunks)"

declare splitText_loop.simps [code]

definition splitText :: "js_string \<Rightarrow> int \<Rightarrow> int \<Rightarrow> js_string list option" where
  "splitText text chunkSize overlap = splitText_loop text chunkSize overlap 0 []"


section \<open>The embedding batcher: \<open>createEmbeddingsWithRetry\<close> and \<open>embedAllChunks\<close>\<close>

text \<open>
  The records pushed by \<open>embedAllChunks\<close>:
  \<^verbatim>\<open>{ id, values, metadata: { filename, chunk_index, text, source_url } }\<close>.
  The embedding itself (an array of floating-point numbers) is opaque: type \<open>'e\<close>.
\<close>

record metadata =
  md_filename :: js_string
  md_chunk_index :: int
  md_text :: js_string
  md_source_url :: js_string

record 'e vector =
  vec_id :: js_string
  vec_values :: 'e
  vec_metadata :: metadata

text \<open>
  One call of \<open>openai.embeddings.create({ model, input })\<close> either throws an error object
  or yields \<open>res.data.map((d) => d.embedding)\<close>.
\<close>

datatype 'e embed_result = EmbedFailed js_error | EmbedOk "'e list"

type_synonym buffer = "8 word list"

text \<open>
  The world of the pdf-processor lambda.  The collaborators are oracles: the embedding
  provider answers its \<open>n\<close>-th call as it likes, \<open>Math.random()\<close> yields its \<open>n\<close>-th
  draw, the object store, the PDF parser and the vector index answer or fail.  The
  effects are logs: the provider calls made (model and inputs), the number of random
  draws, the delays slept, the objects fetched, the batches upserted and the objects
  deleted.  \<open>s3_get_object\<close> stands for \<open>s3Client.send(new GetObjectCommand(..))\<close>
  followed by \<open>streamToBuffer\<close> (\<open>Inr None\<close>: the response has no \<open>Body\<close>); \<open>pdf\<close>
  yields \<open>data.text\<close>.
\<close>

record 'e world =
  embeddings_create :: "nat \<Rightarrow> js_string \<Rightarrow> js_string list \<Rightarrow> 'e embed_result"
  math_random :: "nat \<Rightarrow> real"
  s3_get_object :: "js_string \<Rightarrow> js_string \<Rightarrow> js_error + buffer option"
  pdf :: "buffer \<Rightarrow> js_error + js_string option"
  index_upsert :: "nat \<Rightarrow> 'e vector list \<Rightarrow> js_error option"
  s3_delete_object :: "js_string \<Rightarrow> js_string \<Rightarrow> js_error option"
  embed_calls :: "(js_string \<times> js_string list) list"
  random_draws :: nat
  sleeps :: "real list"
  get_calls :: "(js_string \<times> js_string) list"
  upsert_calls :: "'e vector list list"
  delete_calls :: "(js_string \<times> js_string) list"

text \<open>
  \<^verbatim>\<open>
  async function createEmbeddingsWithRetry(openai, model, inputs, maxRetries = 5) {
    let attempt = 0;
    let lastErr;
    while (attempt < maxRetries) {
      try {
        const res = await openai.embeddings.create({ model, input: inputs });
        return res.data.map((d) => d.embedding);
      } catch (err) {
        lastErr = err;
        const status = err?.status || err?.response?.status;
        const is429 = status === 429;
        const is5xx = status >= 500 && status < 600;
        if (!(is429 || is5xx)) throw err;
        const backoffMs = Math.min(1000 * Math.pow(2, attempt) + Math.random() * 250, 8000);
        console.warn(..);
        await new Promise((r) => setTimeout(r, backoffMs));
        attempt++;
      }
    }
    throw lastErr;
  }
  \<close>
  \<open>err?.status || err?.response?.status\<close>: the first status unless it is absent or 0.
\<close>

definition error_status :: "js_error \<Rightarrow> int option" where
  "error_status err =
     (case err_status err of
        Some s \<Rightarrow> if s \<noteq> 0 then Some s else err_response_status err
      | None \<Rightarrow> err_response_status err)"

function createEmbeddingsWithRetry_loop ::
  "'e world \<Rightarrow> js_string \<Rightarrow> js_string list \<Rightarrow> int \<Rightarrow> nat \<Rightarrow> js_error option
     \<Rightarrow> (thrown + 'e list) \<times> 'e world" where
  "createEmbeddingsWithRetry_loop w model inputs maxRetries attempt lastErr =
     (if int attempt < maxRetries then
        (let res = embeddings_create w (length (embed_calls w)) model inputs;
             w1 = w\<lparr>embed_calls := embed_calls w @ [(model, inputs)]\<rparr>
         in case res of
              EmbedOk embeddings \<Rightarrow> (Inr embeddings, w1)
            | EmbedFailed err \<Rightarrow>
                (let status = error_status err;
                     is429 = (status = Some 429);
                     is5xx = (case status of Some s \<Rightarrow> 500 \<le> s \<and> s < 600 | None \<Rightarrow> False)
                 in if \<not> (is429 \<or> is5xx) then (Inl (Thrown err), w1)
                    else
                      (let backoffMs = min (1000 * 2 ^ attempt
                                              + math_random w1 (random_draws w1) * 250) 8000;
                           w2 = w1\<lparr>random_draws := random_draws w1 + 1,
                                   sleeps := sleeps w1 @ [backoffMs]\<rparr>
                       in createEmbeddingsWithRetry_loop w2 model inputs maxRetries
                            (attempt + 1) (Some err))))
      else (Inl (case lastErr of None \<Rightarrow> ThrownUndefined | Some e \<Rightarrow> Thrown e), w))"
  by pat_completeness auto
termination
  by (relation "measure (\<lambda>(w, model, inputs, maxRetries, attempt, lastErr).
                  nat (maxRetries - int attempt))") auto

declare createEmbeddingsWithRetry_loop.simps [simp del]

definition createEmbeddingsWithRetry ::
  "'e world \<Rightarrow> js_string \<Rightarrow> js_string list \<Rightarrow> int \<Rightarrow> (thrown + 'e list) \<times> 'e world" where
  "createEmbeddingsWithRetry w model inputs maxRetries =
     createEmbeddingsWithRetry_loop w model inputs maxRetries 0 None"

text \<open>
  \<^verbatim>\<open>
  async function embedAllChunks(openai, chunks, options) {
    const { idPrefix, filename, sourceUrl, model = 'text-embedding-3-small',
            batchSize = 64, maxRetries = 5 } = options || {};
    const vectors = [];
    let i = 0;
    for (let start = 0; start < chunks.length; start += batchSize) {
      const batch = chunks.slice(start, start + batchSize).map((t) => (t || '').trim());
      const indices = batch.map((_, idx) => start + idx);
      const nonEmpty = batch.map((t, idx) => ({ text: t, idx: indices[idx] }))
                            .filter((x) => x.text.length > 0);
      if (nonEmpty.length === 0) continue;
      const inputs = nonEmpty.map((x) => x.text);
      const embeddings = await createEmbeddingsWithRetry(openai, model, inputs, maxRetries);
      for (let j = 0; j < embeddings.length; j++) {
        const globalIndex = nonEmpty[j].idx;
        vectors.push({ id: `${idPrefix}-${globalIndex}`, values: embeddings[j],
                       metadata: { filename, chunk_index: globalIndex,
                                   text: nonEmpty[j].text, source_url: sourceUrl } });
        i++;
      }
    }
    return vectors;
  }
  \<close>
  The options always carry \<open>idPrefix\<close>, \<open>filename\<close> and \<open>sourceUrl\<close> (the only caller
  passes them); the other three may be absent.  An object \<open>{ text, idx }\<close> is the pair
  \<open>(text, idx)\<close>.  The counter \<open>i\<close> is written and never read.  The inner \<open>for\<close> loop
  runs over the embeddings that came back; \<open>nonEmpty[j].idx\<close> raises a \<open>TypeError\<close> once
  \<open>j\<close> is past the end of \<open>nonEmpty\<close>.  The outer loop need not end (\<open>batchSize\<close> may
  be 0 or negative), so it lives in the option monad.
\<close>

record options =
  opt_idPrefix :: js_string
  opt_filename :: js_string
  opt_sourceUrl :: js_string
  opt_model :: "js_string option"
  opt_batchSize :: "int option"
  opt_maxRetries :: "int option"

fun push_vectors ::
  "options \<Rightarrow> 'e list \<Rightarrow> (js_string \<times> int) list \<Rightarrow> nat \<Rightarrow> 'e vector list
     \<Rightarrow> thrown + 'e vector list" where
  "push_vectors options [] nonEmpty j vectors = Inr vectors"
| "push_vectors options (e # embeddings) nonEmpty j vectors =
     (if j < length nonEmpty then
        (let globalIndex = snd (nonEmpty ! j);
             v = \<lparr>vec_id = opt_idPrefix options @ lit ''-'' @ js_number_to_string globalIndex,
                  vec_values = e,
                  vec_metadata = \<lparr>md_filename = opt_filename options,
                                   md_chunk_index = globalIndex,
                                   md_text = fst (nonEmpty ! j),
                                   md_source_url = opt_sourceUrl options\<rparr>\<rparr>
         in push_vectors options embeddings nonEmpty (j + 1) (vectors @ [v]))
      else Inl TypeError)"

text \<open>One iteration of the outer loop, entered with \<open>start < chunks.length\<close>.\<close>

definition embedAllChunks_batch ::
  "'e world \<Rightarrow> js_string list \<Rightarrow> options \<Rightarrow> int \<Rightarrow> 'e vector list
     \<Rightarrow> (thrown + 'e vector list) \<times> 'e world" where
  "embedAllChunks_batch w chunks options start vectors =
     (let model = or_default (opt_model options) (lit ''text-embedding-3-small'');
          batchSize = or_default (opt_batchSize options) 64;
          maxRetries = or_default (opt_maxRetries options) 5;
          batch = map js_trim (js_slice chunks start (start + batchSize));
          indices = map (\<lambda>idx. start + int idx) [0..<length batch];
          nonEmpty = filter (\<lambda>x. length (fst x) > 0)
                       (map (\<lambda>(t, idx). (t, indices ! idx)) (zip batch [0..<length batch]))
      in if length nonEmpty = 0 then (Inr vectors, w)
         else
           (let inputs = map fst nonEmpty
            in case createEmbeddingsWithRetry w model inputs maxRetries of
                 (Inl err, w') \<Rightarrow> (Inl err, w')
               | (Inr embeddings, w') \<Rightarrow> (push_vectors options embeddings nonEmpty 0 vectors, w')))"

partial_function (option) embedAllChunks_loop ::
  "'e world \<Rightarrow> js_string list \<Rightarrow> options \<Rightarrow> int \<Rightarrow> 'e vector list
     \<Rightarrow> ((thrown + 'e vector list) \<times> 'e world) option" where
  "embedAllChunks_loop w chunks options start vectors =
     (if start < int (length chunks) then
        (case embedAllChunks_batch w chunks options start vectors of
           (Inl err, w') \<Rightarrow> Some (Inl err, w')
         | (Inr vectors', w') \<Rightarrow>
             embedAllChunks_loop w' chunks options
               (start + or_default (opt_batchSize options) 64) vectors')
      else Some (Inr vectors, w))"

declare embedAllChunks_loop.simps [code]

definition embedAllChunks ::
  "'e world \<Rightarrow> js_string list \<Rightarrow> options
     \<Rightarrow> ((thrown + 'e vector list) \<times> 'e world) option" where
  "embedAllChunks w chunks options = embedAllChunks_loop w chunks options 0 []"


section \<open>The ingestion handler (pdf-processor)\<close>

text \<open>
  One entry of \<open>event.Records\<close>: \<open>record.s3.bucket.name\<close> and the object key.  The key
  is taken after \<open>decodeURIComponent(record.s3.object.key.replace(/\+/g, ' '))\<close>: the
  decoding is a built-in that runs before every step modelled here.
\<close>

record s3_record =
  bucket_name :: js_string
  object_key :: js_string

text \<open>
  The options the handler passes to \<open>embedAllChunks\<close>:
  \<^verbatim>\<open>
  { idPrefix: key.replace(/\//g, '_').replace(/\./g, '-'),
    filename: key,
    sourceUrl: `s3://${bucketName}/${key}`,
    model: 'text-embedding-3-small', batchSize: 64, maxRetries: 5 }
  \<close>
\<close>

definition handler_options :: "js_string \<Rightarrow> js_string \<Rightarrow> options" where
  "handler_options bucketName key =
     \<lparr>opt_idPrefix = js_replace_all 0x2E 0x2D (js_replace_all 0x2F 0x5F key),
      opt_filename = key,
      opt_sourceUrl = lit ''s3://'' @ bucketName @ lit ''/'' @ key,
      opt_model = Some (lit ''text-embedding-3-small''),
      opt_batchSize = Some 64,
      opt_maxRetries = Some 5\<rparr>"

text \<open>
  \<^verbatim>\<open>
  const batchSize = 100;
  for (let i = 0; i < vectors.length; i += batchSize) {
    const batch = vectors.slice(i, i + batchSize);
    await index.upsert(batch);
  }
  \<close>
\<close>

function upsert_loop ::
  "'e world \<Rightarrow> 'e vector list \<Rightarrow> nat \<Rightarrow> (thrown + unit) \<times> 'e world" where
  "upsert_loop w vectors i =
     (if i < length vectors then
        (let batch = js_slice vectors (int i) (int i + 100);
             w1 = w\<lparr>upsert_calls := upsert_calls w @ [batch]\<rparr>
         in case index_upsert w (length (upsert_calls w)) batch of
              Some err \<Rightarrow> (Inl (Thrown err), w1)
            | None \<Rightarrow> upsert_loop w1 vectors (i + 100))
      else (Inr (), w))"
  by pat_completeness auto
termination
  by (relation "measure (\<lambda>(w, vectors, i). length vectors - i)") auto

declare upsert_loop.simps [simp del]

text \<open>
  The body of \<open>for (const record of event.Records || [])\<close>.  \<open>Inr ()\<close> is the normal end
  of the body, by \<open>continue\<close> or by reaching its last statement; \<open>Inl\<close> is the error
  rethrown by the \<open>catch\<close> block, which ends the handler.
  \<^verbatim>\<open>
  if (!key.endsWith('.pdf')) { continue; }
  if (!key.startsWith('uploads/')) { continue; }
  try {
    const { Body } = await s3Client.send(getObjectCommand);
    if (!Body) { continue; }
    const buffer = await streamToBuffer(Body);
    const data = await pdf(buffer);
    const rawText = data.text || '';
    if (!rawText.trim()) { continue; }
    const docs = splitText(rawText, 1000, 200);
    const vectors = await embedAllChunks(openai, docs, { .. });
    if (vectors.length === 0) { continue; }
    .. upsert in batches of 100 ..
    await s3Client.send(deleteObjectCommand);
  } catch (error) { throw error; }
  \<close>
\<close>

definition process_record ::
  "'e world \<Rightarrow> s3_record \<Rightarrow> ((thrown + unit) \<times> 'e world) option" where
  "process_record w record =
     (let bucketName = bucket_name record;
          key = object_key record
      in if \<not> js_endsWith key (lit ''.pdf'') then Some (Inr (), w)
         else if \<not> js_startsWith key (lit ''uploads/'') then Some (Inr (), w)
         else
           (let w1 = w\<lparr>get_calls := get_calls w @ [(bucketName, key)]\<rparr>
            in case s3_get_object w bucketName key of
                 Inl err \<Rightarrow> Some (Inl (Thrown err), w1)
               | Inr None \<Rightarrow> Some (Inr (), w1)
               | Inr (Some buffer) \<Rightarrow>
                   (case pdf w buffer of
                      Inl err \<Rightarrow> Some (Inl (Thrown err), w1)
                    | Inr data_text \<Rightarrow>
                        (let rawText = or_default data_text []
                         in if js_trim rawText = [] then Some (Inr (), w1)
                            else
                              (case splitText rawText 1000 200 of
                                 None \<Rightarrow> None
                               | Some docs \<Rightarrow>
                                   (case embedAllChunks w1 docs (handler_options bucketName key) of
                                      None \<Rightarrow> None
                                    | Some (Inl err, w2) \<Rightarrow> Some (Inl err, w2)
                                    | Some (Inr vectors, w2) \<Rightarrow>
                                        if length vectors = 0 then Some (Inr (), w2)
                                        else
                                          (case upsert_loop w2 vectors 0 of
                                             (Inl err, w3) \<Rightarrow> Some (Inl err, w3)
                                           | (Inr u, w3) \<Rightarrow>
                                               (let w4 = w3\<lparr>delete_calls :=
                                                           delete_calls w3 @ [(bucketName, key)]\<rparr>
                                                in case s3_delete_object w3 bucketName key of
                                                     Some err \<Rightarrow> Some (Inl (Thrown err), w4)
                                                   | None \<Rightarrow> Some (Inr (), w4)))))))))"

text \<open>The handler: the records in order; the status code 200 once all are done.\<close>

fun pdf_processor_handler ::
  "'e world \<Rightarrow> s3_record list \<Rightarrow> ((thrown + int) \<times> 'e world) option" where
  "pdf_processor_handler w [] = Some (Inr 200, w)"
| "pdf_processor_handler w (record # Records) =
     (case process_record w record of
        None \<Rightarrow> None
      | Some (Inl err, w') \<Rightarrow> Some (Inl err, w')
      | Some (Inr u, w') \<Rightarrow> pdf_processor_handler w' Records)"


section \<open>The query handler (query-handler)\<close>

text \<open>
  The three settings read from \<open>process.env\<close>, the parts of the event the handler
  reads, a match returned by the index (\<open>id\<close>, \<open>score\<close> and the metadata fields the
  handler reads), and the response built by \<open>response(statusCode, payload)\<close>; the
  response headers are the same constant in every response and are left out.
\<close>

record env =
  OPENAI_API_KEY :: "js_string option"
  PINECONE_API_KEY :: "js_string option"
  PINECONE_INDEX_NAME :: "js_string option"

record event =
  httpMethod :: "js_string option"
  ev_body :: js_value

record match =
  m_id :: js_string
  m_score :: real
  m_text :: "js_string option"
  m_filename :: js_value
  m_chunk_index :: js_value
  m_source_url :: js_value

record match_summary =
  ms_id :: js_string
  ms_score :: real
  ms_filename :: js_value
  ms_chunk_index :: js_value
  ms_source_url :: js_value

datatype payload =
    Message js_string
  | InternalServerError thrown
  | Answer js_string "match_summary list"

record response =
  statusCode :: int
  body :: payload

definition mk_response :: "int \<Rightarrow> payload \<Rightarrow> response" where
  "mk_response code p = \<lparr>statusCode = code, body = p\<rparr>"

text \<open>
  The world of the query lambda: the three network collaborators as oracles and the log
  of the calls made to them.  Four pure pieces of the platform and of the source text
  are parameters as well: \<open>JSON.parse\<close> (\<open>None\<close>: it throws), the conversion
  \<open>Number(..)\<close>, \<open>Number.prototype.toFixed(3)\<close> and the two prompt templates
  (\<open>prompts query contextText\<close> is the system and the user message).
\<close>

datatype 'e api_call =
    EmbeddingsCreate js_string js_string
  | IndexQuery js_value 'e js_value
  | ChatCompletionsCreate js_string js_string

record 'e query_world =
  json_parse :: "js_string \<Rightarrow> js_value option"
  to_number :: "js_value \<Rightarrow> js_value"
  number_toFixed3 :: "real \<Rightarrow> js_string"
  prompts :: "js_string \<Rightarrow> js_string \<Rightarrow> js_string \<times> js_string"
  q_embeddings_create :: "js_string \<Rightarrow> js_string \<Rightarrow> thrown + 'e"
  q_index_query :: "js_value \<Rightarrow> 'e \<Rightarrow> js_value \<Rightarrow> thrown + match list"
  q_chat_completions_create :: "js_string \<Rightarrow> js_string \<Rightarrow> thrown + js_string option"
  api_calls :: "'e api_call list"

text \<open>
  \<^verbatim>\<open>
  function parseBody(body) {
    if (!body) return {};
    try { return typeof body === 'string' ? JSON.parse(body) : body; }
    catch { return {}; }
  }
  \<close>
\<close>

definition parseBody :: "(js_string \<Rightarrow> js_value option) \<Rightarrow> js_value \<Rightarrow> js_value" where
  "parseBody parse b =
     (if js_falsy b then JObject []
      else (case b of
              JString s \<Rightarrow> (case parse s of None \<Rightarrow> JObject [] | Some v \<Rightarrow> v)
            | _ \<Rightarrow> b))"

text \<open>
  \<open>(body.query || '').trim()\<close>: a \<open>TypeError\<close> when the parsed body is \<open>null\<close>, or when
  the query is a truthy value that is not a string.
\<close>

definition request_query :: "js_value \<Rightarrow> thrown + js_string" where
  "request_query b =
     (case js_get b (lit ''query'') of
        Inl err \<Rightarrow> Inl err
      | Inr q \<Rightarrow>
          (if js_falsy q then Inr (js_trim [])
           else (case q of JString s \<Rightarrow> Inr (js_trim s) | _ \<Rightarrow> Inl TypeError)))"

text \<open>
  \<^verbatim>\<open>
  matches.map((m, i) => `[#${i + 1}] (score=${m.score?.toFixed(3)})\n` +
                        `${(m.metadata.text || '').slice(0, 1500)}`).join('\n\n')
  \<close>
\<close>

definition context_text :: "(real \<Rightarrow> js_string) \<Rightarrow> match list \<Rightarrow> js_string" where
  "context_text toFixed3 matches =
     concat (map (\<lambda>(i, m). (if i = 0 then [] else lit [CHR 0x0A, CHR 0x0A])
                   @ lit ''[#'' @ js_number_to_string (int i + 1) @ lit ''] (score=''
                   @ toFixed3 (m_score m) @ lit '')'' @ lit [CHR 0x0A]
                   @ js_slice (or_default (m_text m) []) 0 1500)
                 (zip [0..<length matches] matches))"

text \<open>
  The body of the handler's \<open>try\<close> block from \<open>const body = parseBody(event.body)\<close> on.
  \<^verbatim>\<open>
  const body = parseBody(event.body);
  const query = (body.query || '').trim();
  const topK = Number(body.topK || 5);
  const namespace = body.namespace || undefined;
  if (!query) { return response(400, { message: 'Missing query' }); }
  const embeddingRes = await openai.embeddings.create({ model: 'text-embedding-3-small',
                                                        input: query });
  const vector = embeddingRes.data[0].embedding;
  const search = await index.query({ topK, vector, includeMetadata: true }, namespace);
  const matches = (search.matches || []).filter(m => !!m?.metadata?.text);
  const contextText = ..;
  const completion = await openai.chat.completions.create({ .. });
  const answer = completion.choices?.[0]?.message?.content?.trim() || '';
  return response(200, { answer, matches: matches.map(..) });
  \<close>
\<close>

definition query_answer ::
  "'e query_world \<Rightarrow> event \<Rightarrow> (thrown + response) \<times> 'e query_world" where
  "query_answer w event =
     (let b = parseBody (json_parse w) (ev_body event)
      in case request_query b of
           Inl err \<Rightarrow> (Inl err, w)
         | Inr query \<Rightarrow>
             (let topK = to_number w
                           (js_or (case js_get b (lit ''topK'') of Inr v \<Rightarrow> v
                                   | Inl e \<Rightarrow> JUndefined)
                                  (JNumber 5));
                  namespace = js_or (case js_get b (lit ''namespace'') of Inr v \<Rightarrow> v
                                     | Inl e \<Rightarrow> JUndefined) JUndefined
              in if query = [] then (Inr (mk_response 400 (Message (lit ''Missing query''))), w)
                 else
                   (let w1 = w\<lparr>api_calls := api_calls w
                                 @ [EmbeddingsCreate (lit ''text-embedding-3-small'') query]\<rparr>
                    in case q_embeddings_create w (lit ''text-embedding-3-small'') query of
                         Inl err \<Rightarrow> (Inl err, w1)
                       | Inr vector \<Rightarrow>
                           (let w2 = w1\<lparr>api_calls := api_calls w1
                                          @ [IndexQuery topK vector namespace]\<rparr>
                            in case q_index_query w topK vector namespace of
                                 Inl err \<Rightarrow> (Inl err, w2)
                               | Inr found \<Rightarrow>
                                   (let matches = filter (\<lambda>m. case m_text m of None \<Rightarrow> False
                                                             | Some t \<Rightarrow> t \<noteq> []) found;
                                        contextText = context_text (number_toFixed3 w) matches;
                                        (system, user) = prompts w query contextText;
                                        w3 = w2\<lparr>api_calls := api_calls w2
                                               @ [ChatCompletionsCreate system user]\<rparr>
                                    in case q_chat_completions_create w system user of
                                         Inl err \<Rightarrow> (Inl err, w3)
                                       | Inr content \<Rightarrow>
                                           (let answer = js_trim (or_default content [])
                                            in (Inr (mk_response 200
                                                  (Answer answer
                                                     (map (\<lambda>m. \<lparr>ms_id = m_id m,
                                                                  ms_score = m_score m,
                                                                  ms_filename = m_filename m,
                                                                  ms_chunk_index = m_chunk_index m,
                                                                  ms_source_url = m_source_url m\<rparr>)
                                                        matches))), w3)))))))"

text \<open>
  \<^verbatim>\<open>
  exports.handler = async (event) => {
    try {
      if (!OPENAI_API_KEY || !PINECONE_API_KEY || !PINECONE_INDEX_NAME) {
        return response(500, { message: 'Missing required environment variables' });
      }
      if (event.httpMethod && event.httpMethod !== 'POST') {
        return response(405, { message: 'Method Not Allowed' });
      }
      ..
    } catch (err) {
      return response(500, { message: 'Internal Server Error', error: String(err) });
    }
  };
  \<close>
\<close>

definition js_missing :: "js_string option \<Rightarrow> bool" where
  "js_missing v \<longleftrightarrow> v = None \<or> v = Some []"

definition query_handler :: "env \<Rightarrow> 'e query_world \<Rightarrow> event \<Rightarrow> response \<times> 'e query_world" where
  "query_handler env w event =
     (if js_missing (OPENAI_API_KEY env) \<or> js_missing (PINECONE_API_KEY env)
         \<or> js_missing (PINECONE_INDEX_NAME env)
      then (mk_response 500 (Message (lit ''Missing required environment variables'')), w)
      else if (case httpMethod event of None \<Rightarrow> False | Some m \<Rightarrow> m \<noteq> [] \<and> m \<noteq> lit ''POST'')
      then (mk_response 405 (Message (lit ''Method Not Allowed'')), w)
      else (case query_answer w event of
              (Inl err, w') \<Rightarrow> (mk_response 500 (InternalServerError err), w')
            | (Inr r, w') \<Rightarrow> (r, w')))"


section \<open>Vocabulary of the proofs\<close>

subsection \<open>Chunker\<close>

text \<open>
  The chunks joined in order, every chunk after the first without its leading \<open>ov\<close>
  elements (the part it shares with its predecessor).
\<close>

definition join_chunks :: "nat \<Rightarrow> 'a list list \<Rightarrow> 'a list" where
  "join_chunks ov chunks =
     (case chunks of [] \<Rightarrow> [] | c # cs \<Rightarrow> c @ concat (map (drop ov) cs))"

text \<open>
  Proof device: the windows of width \<open>w\<close> taken every \<open>s\<close> positions from \<open>start\<close>,
  a total function that the loop is shown to compute whenever the step is positive.
\<close>

function windows :: "'a list \<Rightarrow> nat \<Rightarrow> nat \<Rightarrow> nat \<Rightarrow> 'a list list" where
  "windows xs w s start =
     (if s = 0 \<or> length xs \<le> start then []
      else if length xs \<le> start + w then [drop start xs]
      else take w (drop start xs) # windows xs w s (start + s))"
  by pat_completeness auto
termination
  by (relation "measure (\<lambda>(xs, w, s, start). length xs - start)") auto

declare windows.simps [simp del]

text \<open>
  A loop state from which \<open>splitText\<close> cannot escape: the step is not positive and the
  current window ends before the end of the text.
\<close>

definition stuck :: "'a list \<Rightarrow> int \<Rightarrow> int \<Rightarrow> int \<Rightarrow> bool" where
  "stuck xs ws ov start \<longleftrightarrow>
     ws \<le> ov \<and> 0 \<le> start \<and> start < int (length xs) \<and> start + ws < int (length xs)"



subsection \<open>Embedding batcher\<close>

text \<open>
  The errors after which \<open>createEmbeddingsWithRetry\<close> goes on: status 429 or a status
  from 500 up to 599.
\<close>

definition retryable :: "js_error \<Rightarrow> bool" where
  "retryable err =
     (case error_status err of None \<Rightarrow> False | Some s \<Rightarrow> s = 429 \<or> (500 \<le> s \<and> s < 600))"

text \<open>
  The provider's answer to the \<open>k\<close>-th call made from the world \<open>w\<close> on, the error of a
  failed answer, the \<open>k\<close>-th delay slept from \<open>w\<close> on when the attempt counter starts at
  \<open>attempt\<close>, and the world after \<open>n\<close> failed calls followed by a delay each.
\<close>

definition response_at :: "'e world \<Rightarrow> js_string \<Rightarrow> js_string list \<Rightarrow> nat \<Rightarrow> 'e embed_result" where
  "response_at w model inputs k = embeddings_create w (length (embed_calls w) + k) model inputs"

definition failure_of :: "'e embed_result \<Rightarrow> js_error option" where
  "failure_of r = (case r of EmbedFailed err \<Rightarrow> Some err | EmbedOk es \<Rightarrow> None)"

definition backoff :: "'e world \<Rightarrow> nat \<Rightarrow> nat \<Rightarrow> real" where
  "backoff w attempt k =
     min (1000 * 2 ^ (attempt + k) + math_random w (random_draws w + k) * 250) 8000"

definition after_retries ::
  "'e world \<Rightarrow> js_string \<Rightarrow> js_string list \<Rightarrow> nat \<Rightarrow> nat \<Rightarrow> 'e world" where
  "after_retries w model inputs attempt n =
     w\<lparr>embed_calls := embed_calls w @ replicate n (model, inputs),
       random_draws := random_draws w + n,
       sleeps := sleeps w @ map (backoff w attempt) [0..<n]\<rparr>"

text \<open>
  The chunks at positions \<open>a\<close> up to \<open>b - 1\<close> that are not empty once trimmed, each
  trimmed and paired with its position; and the record pushed for such a pair and an
  embedding.
\<close>

definition entries :: "js_string list \<Rightarrow> nat \<Rightarrow> nat \<Rightarrow> (js_string \<times> int) list" where
  "entries chunks a b =
     filter (\<lambda>x. fst x \<noteq> []) (map (\<lambda>i. (js_trim (chunks ! i), int i)) [a..<b])"

definition mk_vector :: "options \<Rightarrow> 'e \<Rightarrow> js_string \<times> int \<Rightarrow> 'e vector" where
  "mk_vector options e x =
     \<lparr>vec_id = opt_idPrefix options @ lit ''-'' @ js_number_to_string (snd x),
      vec_values = e,
      vec_metadata = \<lparr>md_filename = opt_filename options,
                       md_chunk_index = snd x,
                       md_text = fst x,
                       md_source_url = opt_sourceUrl options\<rparr>\<rparr>"



subsection \<open>Sample worlds\<close>

text \<open>
  Sample worlds for concrete runs: empty logs, \<open>Math.random()\<close> constantly one half,
  an index and a delete operation that never fail, and the given provider, object store
  and parser.
\<close>

definition sample_world ::
  "(nat \<Rightarrow> js_string \<Rightarrow> js_string list \<Rightarrow> 'e embed_result)
     \<Rightarrow> (js_string \<Rightarrow> js_string \<Rightarrow> js_error + buffer option)
     \<Rightarrow> (buffer \<Rightarrow> js_error + js_string option) \<Rightarrow> 'e world" where
  "sample_world provider fetch parse =
     \<lparr>embeddings_create = provider,
      math_random = (\<lambda>n. 1 / 2),
      s3_get_object = fetch,
      pdf = parse,
      index_upsert = (\<lambda>n batch. None),
      s3_delete_object = (\<lambda>bucket key. None),
      embed_calls = [],
      random_draws = 0,
      sleeps = [],
      get_calls = [],
      upsert_calls = [],
      delete_calls = []\<rparr>"

text \<open>A provider that fails with the given status on its first \<open>n\<close> calls and then
  answers every input with its length.\<close>

definition flaky_provider ::
  "nat \<Rightarrow> int \<Rightarrow> nat \<Rightarrow> js_string \<Rightarrow> js_string list \<Rightarrow> nat embed_result" where
  "flaky_provider n status k model inputs =
     (if k < n then EmbedFailed \<lparr>err_status = Some status, err_response_status = None\<rparr>
      else EmbedOk (map length inputs))"

definition sample_options :: "int \<Rightarrow> options" where
  "sample_options bs =
     \<lparr>opt_idPrefix = lit ''doc'', opt_filename = lit ''doc.pdf'',
      opt_sourceUrl = lit ''s3://b/doc.pdf'', opt_model = None,
      opt_batchSize = Some bs, opt_maxRetries = None\<rparr>"

subsection \<open>Ingestion handler\<close>

text \<open>
  The text that the handler extracts for a record, when it gets that far: the key is
  eligible, the object has a body and the parser succeeds.  And the ids of the records
  that a completed run writes to the index, as a function of the key and that text
  alone: none when nothing was extracted or the text is blank, otherwise the prefix
  made from the key, a hyphen and the position, for every chunk of the text that is
  not empty once trimmed.
\<close>

definition extracted_text :: "'e world \<Rightarrow> s3_record \<Rightarrow> js_string option" where
  "extracted_text w record =
     (if js_endsWith (object_key record) (lit ''.pdf'')
         \<and> js_startsWith (object_key record) (lit ''uploads/'')
      then (case s3_get_object w (bucket_name record) (object_key record) of
              Inr (Some buffer) \<Rightarrow>
                (case pdf w buffer of Inr data_text \<Rightarrow> Some (or_default data_text [])
                 | Inl err \<Rightarrow> None)
            | _ \<Rightarrow> None)
      else None)"



subsection \<open>Query handler\<close>

text \<open>
  The member named \<open>query\<close> of a parsed body: \<open>None\<close> when the body is not an object or
  has no such member.
\<close>

definition query_member :: "js_value \<Rightarrow> js_value option" where
  "query_member b = (case b of JObject props \<Rightarrow> map_of props (lit ''query'') | _ \<Rightarrow> None)"

text \<open>
  A sample configuration and a sample world of the query lambda: \<open>JSON.parse\<close> knows
  the text \<open>null\<close> and throws on every other text, \<open>Number\<close> leaves its argument as it
  is, and every network collaborator fails.
\<close>

definition sample_env :: env where
  "sample_env =
     \<lparr>OPENAI_API_KEY = Some (lit ''k1''), PINECONE_API_KEY = Some (lit ''k2''),
      PINECONE_INDEX_NAME = Some (lit ''idx'')\<rparr>"

definition sample_query_world :: "nat query_world" where
  "sample_query_world =
     \<lparr>json_parse = (\<lambda>s. if s = lit ''null'' then Some JNull else None),
      to_number = (\<lambda>v. v),
      number_toFixed3 = (\<lambda>x. []),
      prompts = (\<lambda>query contextText. ([], [])),
      q_embeddings_create = (\<lambda>model input. Inl TypeError),
      q_index_query = (\<lambda>topK vector namespace. Inl TypeError),
      q_chat_completions_create = (\<lambda>system user. Inl TypeError),
      api_calls = []\<rparr>"

section \<open>Properties of the chunker\<close>

subsection \<open>Slices at non-negative positions\<close>

lemma js_slice_nonneg:
  "0 \<le> a \<Longrightarrow> a \<le> b \<Longrightarrow> js_slice xs a b = take (nat (b - a)) (drop (nat a) xs)"
  by (auto simp: js_slice_def Let_def min_def nat_diff_distrib)

lemma js_slice_whole: "js_slice xs 0 (int (length xs)) = xs"
  by (simp add: js_slice_def Let_def)

subsection \<open>The loop computes the windows\<close>

lemma splitText_loop_windows:
  assumes "0 < ws" "0 \<le> ov" "ov < ws"
  shows "splitText_loop tx ws ov (int start) chunks
           = Some (chunks @ windows tx (nat ws) (nat (ws - ov)) start)"
  using assms
proof (induction tx "nat ws" "nat (ws - ov)" start arbitrary: chunks rule: windows.induct)
  case (1 tx start)
  show ?case
  proof (cases "length tx \<le> start")
    case True
    then show ?thesis
      by (subst splitText_loop.simps, subst windows.simps) simp
  next
    case False
    note lt = this
    show ?thesis
    proof (cases "length tx \<le> start + nat ws")
      case True
      with lt 1(2-) show ?thesis
        by (subst splitText_loop.simps, subst windows.simps)
           (auto simp: Let_def js_slice_nonneg min_def nat_diff_distrib)
    next
      case False
      have s: "max 0 (int start + ws - ov) = int (start + nat (ws - ov))"
        using 1(2-) by auto
      have "splitText_loop tx ws ov (int start) chunks
            = splitText_loop tx ws ov (int (start + nat (ws - ov)))
                (chunks @ [take (nat ws) (drop start tx)])"
        using lt False 1(2-)
        by (subst splitText_loop.simps)
           (auto simp: Let_def js_slice_nonneg min_def s simp del: of_nat_add)
      also have "\<dots> = Some ((chunks @ [take (nat ws) (drop start tx)])
                     @ windows tx (nat ws) (nat (ws - ov)) (start + nat (ws - ov)))"
        using lt False 1(2-) by (intro 1(1)) auto
      also have "\<dots> = Some (chunks @ windows tx (nat ws) (nat (ws - ov)) start)"
        using lt False 1(2-) by (subst (2) windows.simps) auto
      finally show ?thesis .
    qed
  qed
qed

lemma splitText_windows:
  assumes "0 < ws" "0 \<le> ov" "ov < ws"
  shows "splitText tx ws ov = Some (windows tx (nat ws) (nat (ws - ov)) 0)"
  using splitText_loop_windows[OF assms, of tx 0 "[]"] by (simp add: splitText_def)

subsection \<open>Position, number and union of the windows\<close>

lemma windows_nth:
  "i < length (windows tx w s start) \<Longrightarrow>
   windows tx w s start ! i = take w (drop (start + i * s) tx)"
proof (induction tx w s start arbitrary: i rule: windows.induct)
  case (1 tx w s start)
  show ?case
  proof (cases "s = 0 \<or> length tx \<le> start")
    case True
    with 1(2) show ?thesis by (simp add: windows.simps)
  next
    case False
    note nz = this
    show ?thesis
    proof (cases "length tx \<le> start + w")
      case True
      with nz 1(2) show ?thesis
        by (subst windows.simps) (simp add: windows.simps)
    next
      case False
      have unf: "windows tx w s start = take w (drop start tx) # windows tx w s (start + s)"
        using nz False by (subst windows.simps) simp
      show ?thesis
      proof (cases i)
        case 0
        then show ?thesis by (simp add: unf)
      next
        case (Suc j)
        with 1(2) unf have "j < length (windows tx w s (start + s))" by simp
        from 1(1)[OF nz False this] Suc show ?thesis
          by (simp add: unf ac_simps)
      qed
    qed
  qed
qed

lemma windows_length:
  "0 < s \<Longrightarrow> s \<le> w \<Longrightarrow> start < length tx \<Longrightarrow>
   length (windows tx w s start) =
     (if length tx \<le> start + w then 1 else (length tx - start - w + s - 1) div s + 1)"
proof (induction tx w s start rule: windows.induct)
  case (1 tx w s start)
  show ?case
  proof (cases "length tx \<le> start + w")
    case True
    with 1(2-) show ?thesis by (subst windows.simps) simp
  next
    case False
    have unf: "windows tx w s start = take w (drop start tx) # windows tx w s (start + s)"
      using 1(2-) False by (subst windows.simps) simp
    have nz: "\<not> (s = 0 \<or> length tx \<le> start)" using 1(2-) by simp
    have lt: "start + s < length tx" using False 1(3) by simp
    note IH = 1(1)[OF nz False 1(2) 1(3) lt]
    define d where "d = length tx - start - w"
    have dpos: "0 < d" using False by (simp add: d_def)
    show ?thesis
    proof (cases "length tx \<le> start + s + w")
      case True
      then have "d \<le> s" by (simp add: d_def)
      with dpos 1(2) have "(d + s - 1) div s = 1"
        by (simp add: div_nat_eqI)
      with True False IH show ?thesis by (simp add: unf d_def)
    next
      case F2: False
      then have "s < d" by (simp add: d_def)
      then have e: "d + s - 1 = (d - 1) + s" by simp
      have "(d + s - 1) div s = ((d - 1) + s) div s"
        by (simp only: e)
      also have "\<dots> = (d - 1) div s + 1"
        using 1(2) by simp
      finally have "(d + s - 1) div s = (d - s + s - 1) div s + 1"
        using \<open>s < d\<close> by simp
      moreover have "length tx - (start + s) - w = d - s" by (simp add: d_def)
      ultimately show ?thesis using F2 False IH by (simp add: unf d_def)
    qed
  qed
qed

lemma windows_drop_join:
  assumes "0 < s" "ov \<le> w" "start < length tx" "ov < length tx - start"
  shows "concat (map (drop ov) (windows tx w s start))
         = drop ov (join_chunks ov (windows tx w s start))"
proof (cases "length tx \<le> start + w")
  case True
  with assms show ?thesis by (subst (1 2) windows.simps) (simp add: join_chunks_def)
next
  case False
  with assms show ?thesis by (subst (1 2) windows.simps) (simp add: join_chunks_def)
qed

lemma windows_join:
  "0 < s \<Longrightarrow> s \<le> w \<Longrightarrow> join_chunks (w - s) (windows tx w s start) = drop start tx"
proof (induction tx w s start rule: windows.induct)
  case (1 tx w s start)
  show ?case
  proof (cases "length tx \<le> start")
    case True
    then show ?thesis by (subst windows.simps) (simp add: join_chunks_def)
  next
    case False
    note lt = this
    show ?thesis
    proof (cases "length tx \<le> start + w")
      case True
      with lt 1(2) show ?thesis by (subst windows.simps) (simp add: join_chunks_def)
    next
      case False
      have unf: "windows tx w s start = take w (drop start tx) # windows tx w s (start + s)"
        using 1(2-) lt False by (subst windows.simps) simp
      have nz: "\<not> (s = 0 \<or> length tx \<le> start)" using 1(2) lt by simp
      note IH = 1(1)[OF nz False 1(2) 1(3)]
      have "join_chunks (w - s) (windows tx w s start)
            = take w (drop start tx) @ concat (map (drop (w - s)) (windows tx w s (start + s)))"
        by (simp add: unf join_chunks_def)
      also have "\<dots> = take w (drop start tx)
                   @ drop (w - s) (join_chunks (w - s) (windows tx w s (start + s)))"
        using False 1(2,3) by (subst windows_drop_join) auto
      also have "\<dots> = take w (drop start tx) @ drop (w - s) (drop (start + s) tx)"
        by (simp only: IH)
      also have "\<dots> = take w (drop start tx) @ drop w (drop start tx)"
        using 1(3) by (simp add: ac_simps)
      finally show ?thesis by (simp only: append_take_drop_id)
    qed
  qed
qed

subsection \<open>The chunk count as a ceiling\<close>

lemma ceiling_nat_div:
  fixes d s :: nat
  assumes "0 < d" "0 < s"
  shows "\<lceil>real (d + s) / real s\<rceil> = int ((d + s - 1) div s + 1)"
proof (rule ceiling_unique)
  define q where "q = (d + s - 1) div s"
  have lo: "q * s \<le> d + s - 1"
    unfolding q_def by (rule div_times_less_eq_dividend)
  have hi: "d + s - 1 < s + q * s"
    unfolding q_def using assms(2) by (rule dividend_less_div_times)
  from lo assms have "q * s < d + s" by simp
  then have "real (q * s) < real (d + s)" by (simp only: of_nat_less_iff)
  then have "real q < real (d + s) / real s"
    using assms(2) by (simp add: pos_less_divide_eq)
  then show "of_int (int ((d + s - 1) div s + 1)) - 1 < real (d + s) / real s"
    by (simp add: q_def)
  from hi have "d + s \<le> (q + 1) * s" by simp
  then have "real (d + s) \<le> real ((q + 1) * s)" by (simp only: of_nat_le_iff)
  then have "real (d + s) / real s \<le> real (q + 1)"
    using assms(2) by (simp add: pos_divide_le_eq algebra_simps)
  then show "real (d + s) / real s \<le> of_int (int ((d + s - 1) div s + 1))"
    by (simp add: q_def)
qed

lemma ceiling_count:
  fixes len w ov :: int
  assumes "0 \<le> ov" "ov < w" "w < len"
  shows "\<lceil>real_of_int (len - ov) / real_of_int (w - ov)\<rceil>
         = int ((nat len - nat w + nat (w - ov) - 1) div nat (w - ov) + 1)"
proof -
  define d where "d = nat len - nat w"
  define s where "s = nat (w - ov)"
  have dpos: "0 < d" and spos: "0 < s" using assms by (auto simp: d_def s_def)
  have a: "real_of_int (len - ov) = real (d + s)"
    using assms by (simp add: d_def s_def)
  have b: "real_of_int (w - ov) = real s"
    using assms by (simp add: s_def)
  show ?thesis
    unfolding a b using ceiling_nat_div[OF dpos spos] by (simp add: d_def s_def)
qed

subsection \<open>When the loop returns and when it does not\<close>

lemma splitText_loop_stuck:
  assumes "splitText_loop tx ws ov start chunks = Some r"
  shows "\<not> stuck tx ws ov start"
proof (rule splitText_loop.raw_induct
         [where P = "\<lambda>tx ws ov start chunks r. \<not> stuck tx ws ov start", OF _ assms])
  fix f tx ws ov start and chunks r :: "js_string list"
  assume IH: "\<And>tx ws ov start chunks r.
                 f tx ws ov start chunks = Some r \<Longrightarrow> \<not> stuck tx ws ov start"
    and eq: "(let len = int (length tx) in
      if start < len then
        (let end = min (start + ws) len;
             chunk = js_slice tx start end;
             chunks' = chunks @ [chunk]
         in if end = len then Some chunks'
            else f tx ws ov (max 0 (end - ov)) chunks')
      else Some chunks) = Some r"
  show "\<not> stuck tx ws ov start"
  proof
    assume inv: "stuck tx ws ov start"
    then have "f tx ws ov (max 0 (start + ws - ov))
                 (chunks @ [js_slice tx start (start + ws)]) = Some r"
      using eq by (simp add: stuck_def Let_def min_def split: if_splits)
    from IH[OF this] inv show False
      by (auto simp: stuck_def max_def split: if_splits)
  qed
qed

lemma splitText_loop_returns:
  assumes "ov < ws" "0 \<le> start"
  shows "\<exists>r. splitText_loop tx ws ov start chunks = Some r"
  using assms(2)
proof (induction "nat (int (length tx) - start)" arbitrary: start chunks rule: less_induct)
  case less
  show ?case
  proof (cases "start < int (length tx)")
    case False
    then show ?thesis by (subst splitText_loop.simps) simp
  next
    case True
    note lt = this
    show ?thesis
    proof (cases "min (start + ws) (int (length tx)) = int (length tx)")
      case True
      with lt show ?thesis by (subst splitText_loop.simps) (simp add: Let_def)
    next
      case False
      then have e: "min (start + ws) (int (length tx)) = start + ws"
        and b: "start + ws < int (length tx)" by (auto simp: min_def split: if_splits)
      let ?n = "max 0 (start + ws - ov)"
      have adv: "start < ?n" using assms(1) less.prems by simp
      then have "nat (int (length tx) - ?n) < nat (int (length tx) - start)"
        using lt by linarith
      moreover have "0 \<le> ?n" by simp
      ultimately obtain r where
        "splitText_loop tx ws ov ?n (chunks @ [js_slice tx start (start + ws)]) = Some r"
        using less.hyps by blast
      with lt False e show ?thesis
        by (subst splitText_loop.simps) (simp add: Let_def)
    qed
  qed
qed

subsection \<open>Chunks as slices of the text\<close>

lemma windows_inner_bound:
  "Suc i < length (windows tx w s start) \<Longrightarrow> start + i * s + w < length tx"
proof (induction tx w s start arbitrary: i rule: windows.induct)
  case (1 tx w s start)
  show ?case
  proof (cases "s = 0 \<or> length tx \<le> start")
    case True
    with 1(2) show ?thesis by (simp add: windows.simps)
  next
    case False
    note nz = this
    show ?thesis
    proof (cases "length tx \<le> start + w")
      case True
      with nz 1(2) show ?thesis by (simp add: windows.simps)
    next
      case False
      have unf: "windows tx w s start = take w (drop start tx) # windows tx w s (start + s)"
        using nz False by (subst windows.simps) simp
      show ?thesis
      proof (cases i)
        case 0
        with False show ?thesis by simp
      next
        case (Suc j)
        with 1(2) unf have "Suc j < length (windows tx w s (start + s))" by simp
        from 1(1)[OF nz False this] Suc show ?thesis by (simp add: ac_simps)
      qed
    qed
  qed
qed

lemma windows_start_bound:
  "i < length (windows tx w s start) \<Longrightarrow> start + i * s < length tx"
proof (induction tx w s start arbitrary: i rule: windows.induct)
  case (1 tx w s start)
  show ?case
  proof (cases "s = 0 \<or> length tx \<le> start")
    case True
    with 1(2) show ?thesis by (simp add: windows.simps)
  next
    case False
    note nz = this
    show ?thesis
    proof (cases "length tx \<le> start + w")
      case True
      with nz 1(2) show ?thesis by (simp add: windows.simps)
    next
      case False
      have unf: "windows tx w s start = take w (drop start tx) # windows tx w s (start + s)"
        using nz False by (subst windows.simps) simp
      show ?thesis
      proof (cases i)
        case 0
        with nz show ?thesis by simp
      next
        case (Suc j)
        with 1(2) unf have "j < length (windows tx w s (start + s))" by simp
        from 1(1)[OF nz False this] Suc show ?thesis by (simp add: ac_simps)
      qed
    qed
  qed
qed

lemma js_slice_window:
  "0 \<le> a \<Longrightarrow> 0 \<le> w \<Longrightarrow>
   js_slice xs a (min (a + w) (int (length xs))) = take (nat w) (drop (nat a) xs)"
proof (cases "a + w \<le> int (length xs)")
  case True
  assume "0 \<le> a" "0 \<le> w"
  with True js_slice_nonneg[of a "a + w" xs] show ?thesis by (simp add: min_def)
next
  case False
  assume "0 \<le> a" "0 \<le> w"
  with False have "length (drop (nat a) xs) \<le> nat w" by simp
  then have "take (nat w) (drop (nat a) xs) = drop (nat a) xs" by (rule take_all)
  moreover have "js_slice xs a (int (length xs)) = drop (nat a) xs"
    using \<open>0 \<le> a\<close> by (auto simp: js_slice_def Let_def min_def)
  ultimately show ?thesis using False by (simp add: min_def)
qed

lemma splitText_chunk_slice:
  assumes "0 < ws" "0 \<le> ov" "ov < ws"
    and "splitText tx ws ov = Some chunks" "i < length chunks"
  shows "chunks ! i = js_slice tx (int i * (ws - ov))
                        (min (int i * (ws - ov) + ws) (int (length tx)))"
proof -
  let ?w = "nat ws" and ?s = "nat (ws - ov)"
  have c: "chunks = windows tx ?w ?s 0"
    using splitText_windows[OF assms(1-3), of tx] assms(4) by simp
  have n: "chunks ! i = take ?w (drop (i * ?s) tx)"
    using windows_nth[of i tx ?w ?s 0] assms(5) c by simp
  have a: "nat (int i * (ws - ov)) = i * ?s"
    using assms(1-3) by (simp add: nat_mult_distrib)
  have "0 \<le> int i * (ws - ov)" using assms(1-3) by simp
  from js_slice_window[OF this, of ws tx] assms(1) n a show ?thesis by simp
qed

lemma splitText_chunk_inner:
  assumes "0 < ws" "0 \<le> ov" "ov < ws"
    and "splitText tx ws ov = Some chunks" "Suc i < length chunks"
  shows "int i * (ws - ov) + ws < int (length tx)"
proof -
  let ?w = "nat ws" and ?s = "nat (ws - ov)"
  have c: "chunks = windows tx ?w ?s 0"
    using splitText_windows[OF assms(1-3), of tx] assms(4) by simp
  have "0 + i * ?s + ?w < length tx"
    using windows_inner_bound[of i tx ?w ?s 0] assms(5) c by simp
  then have "int (i * ?s + ?w) < int (length tx)" by (simp only: of_nat_less_iff)
  moreover have "int (i * ?s + ?w) = int i * (ws - ov) + ws" using assms(1-3) by simp
  ultimately show ?thesis by simp
qed

lemma splitText_join:
  assumes "0 < ws" "0 \<le> ov" "ov < ws"
    and "splitText tx ws ov = Some chunks"
  shows "join_chunks (nat ov) chunks = tx"
proof -
  let ?w = "nat ws" and ?s = "nat (ws - ov)"
  have c: "chunks = windows tx ?w ?s 0"
    using splitText_windows[OF assms(1-3), of tx] assms(4) by simp
  have "?w - ?s = nat ov" using assms(1-3) by simp
  with windows_join[of ?s ?w tx 0] assms(1-3) c show ?thesis by simp
qed


lemma splitText_scenario_2400:
  assumes "length tx = 2400"
  shows "splitText tx 1000 200
         = Some [js_slice tx 0 1000, js_slice tx 800 1800, js_slice tx 1600 2400]"
proof -
  have "splitText_loop tx 1000 200 0 []
        = splitText_loop tx 1000 200 800 [js_slice tx 0 1000]"
    using assms by (subst splitText_loop.simps) (simp add: Let_def)
  also have "\<dots> = splitText_loop tx 1000 200 1600 [js_slice tx 0 1000, js_slice tx 800 1800]"
    using assms by (subst splitText_loop.simps) (simp add: Let_def)
  also have "\<dots> = Some [js_slice tx 0 1000, js_slice tx 800 1800, js_slice tx 1600 2400]"
    using assms by (subst splitText_loop.simps) (simp add: Let_def)
  finally show ?thesis by (simp add: splitText_def)
qed

lemma splitText_empty: "splitText [] ws ov = Some []"
  by (simp add: splitText_def splitText_loop.simps)

lemma splitText_single:
  assumes "tx \<noteq> []" "int (length tx) \<le> ws"
  shows "splitText tx ws ov = Some [tx]"
  using assms by (simp add: splitText_def splitText_loop.simps Let_def min_def js_slice_whole)

lemma splitText_count:
  assumes "0 < ws" "0 \<le> ov" "ov < ws" "ws < int (length tx)"
    and "splitText tx ws ov = Some chunks"
  shows "int (length chunks)
         = \<lceil>real_of_int (int (length tx) - ov) / real_of_int (ws - ov)\<rceil>"
proof -
  let ?w = "nat ws" and ?s = "nat (ws - ov)"
  have c: "chunks = windows tx ?w ?s 0"
    using splitText_windows[OF assms(1-3), of tx] assms(5) by simp
  have p: "0 < ?s" "?s \<le> ?w" "0 < length tx" "\<not> length tx \<le> 0 + ?w"
    using assms(1-4) by auto
  have "length chunks = (length tx - ?w + ?s - 1) div ?s + 1"
    unfolding c using windows_length[OF p(1-3)] p(4) by simp
  with ceiling_count[OF assms(2,3,4)] show ?thesis by simp
qed


lemma splitText_returns_iff:
  "(\<exists>chunks. splitText tx ws ov = Some chunks)
   \<longleftrightarrow> tx = [] \<or> ov < ws \<or> int (length tx) \<le> ws"
proof
  assume "\<exists>chunks. splitText tx ws ov = Some chunks"
  then obtain r where "splitText_loop tx ws ov 0 [] = Some r"
    by (auto simp: splitText_def)
  then have "\<not> stuck tx ws ov 0" by (rule splitText_loop_stuck)
  then show "tx = [] \<or> ov < ws \<or> int (length tx) \<le> ws"
    by (auto simp: stuck_def)
next
  assume a: "tx = [] \<or> ov < ws \<or> int (length tx) \<le> ws"
  show "\<exists>chunks. splitText tx ws ov = Some chunks"
  proof (cases "tx = []")
    case True
    then show ?thesis by (simp add: splitText_empty)
  next
    case False
    note ne = this
    show ?thesis
    proof (cases "ov < ws")
      case True
      from splitText_loop_returns[OF this, of 0 tx "[]"] show ?thesis
        by (simp add: splitText_def)
    next
      case False
      with a ne have "int (length tx) \<le> ws" by simp
      from splitText_single[OF ne this] show ?thesis by blast
    qed
  qed
qed




section \<open>Properties of the retry loop\<close>

lemma retry_ok:
  assumes "int a < m" "embeddings_create w (length (embed_calls w)) model inputs = EmbedOk es"
  shows "createEmbeddingsWithRetry_loop w model inputs m a le
         = (Inr es, w\<lparr>embed_calls := embed_calls w @ [(model, inputs)]\<rparr>)"
  using assms by (subst createEmbeddingsWithRetry_loop.simps) (simp add: Let_def)

lemma retry_fatal:
  assumes "int a < m" "embeddings_create w (length (embed_calls w)) model inputs = EmbedFailed err"
    and "\<not> retryable err"
  shows "createEmbeddingsWithRetry_loop w model inputs m a le
         = (Inl (Thrown err), w\<lparr>embed_calls := embed_calls w @ [(model, inputs)]\<rparr>)"
  using assms
  by (subst createEmbeddingsWithRetry_loop.simps)
     (auto simp: Let_def retryable_def split: option.splits)

lemma retry_again:
  assumes "int a < m" "embeddings_create w (length (embed_calls w)) model inputs = EmbedFailed err"
    and "retryable err"
  shows "createEmbeddingsWithRetry_loop w model inputs m a le
         = createEmbeddingsWithRetry_loop
             (w\<lparr>embed_calls := embed_calls w @ [(model, inputs)],
                random_draws := random_draws w + 1,
                sleeps := sleeps w @ [min (1000 * 2 ^ a + math_random w (random_draws w) * 250) 8000]\<rparr>)
             model inputs m (a + 1) (Some err)"
  using assms
  by (subst createEmbeddingsWithRetry_loop.simps)
     (auto simp: Let_def retryable_def split: option.splits)

lemma retry_exhausted:
  assumes "\<not> int a < m"
  shows "createEmbeddingsWithRetry_loop w model inputs m a le
         = (Inl (case le of None \<Rightarrow> ThrownUndefined | Some e \<Rightarrow> Thrown e), w)"
  using assms by (subst createEmbeddingsWithRetry_loop.simps) simp

lemma after_retries_0 [simp]: "after_retries w model inputs a 0 = w"
  by (simp add: after_retries_def)

lemma after_retries_fields [simp]:
  "embeddings_create (after_retries w model inputs a n) = embeddings_create w"
  "math_random (after_retries w model inputs a n) = math_random w"
  "embed_calls (after_retries w model inputs a n) = embed_calls w @ replicate n (model, inputs)"
  "random_draws (after_retries w model inputs a n) = random_draws w + n"
  "sleeps (after_retries w model inputs a n) = sleeps w @ map (backoff w a) [0..<n]"
  by (simp_all add: after_retries_def)

lemma retry_run:
  assumes "\<forall>k<n. \<exists>err. response_at w model inputs k = EmbedFailed err \<and> retryable err"
    and "int (a + n) \<le> m"
  shows "createEmbeddingsWithRetry_loop w model inputs m a le
         = createEmbeddingsWithRetry_loop (after_retries w model inputs a n) model inputs m (a + n)
             (if n = 0 then le else failure_of (response_at w model inputs (n - 1)))"
  using assms
proof (induction n)
  case 0
  then show ?case by simp
next
  case (Suc n)
  from Suc.prems(1) obtain err where
    r: "response_at w model inputs n = EmbedFailed err" and rt: "retryable err"
    by blast
  have lt: "int (a + n) < m" using Suc.prems(2) by simp
  let ?w = "after_retries w model inputs a n"
  have resp: "embeddings_create ?w (length (embed_calls ?w)) model inputs = EmbedFailed err"
    using r by (simp add: response_at_def)
  have step: "?w\<lparr>embed_calls := embed_calls ?w @ [(model, inputs)],
                random_draws := random_draws ?w + 1,
                sleeps := sleeps ?w @ [min (1000 * 2 ^ (a + n)
                            + math_random ?w (random_draws ?w) * 250) 8000]\<rparr>
              = after_retries w model inputs a (Suc n)"
    by (simp add: after_retries_def backoff_def replicate_append_same)
  have "createEmbeddingsWithRetry_loop w model inputs m a le
        = createEmbeddingsWithRetry_loop ?w model inputs m (a + n)
            (if n = 0 then le else failure_of (response_at w model inputs (n - 1)))"
    using Suc by simp
  also have "\<dots> = createEmbeddingsWithRetry_loop (after_retries w model inputs a (Suc n))
                      model inputs m (a + n + 1) (Some err)"
    using retry_again[OF lt resp rt] by (simp only: step)
  finally show ?case by (simp add: r failure_of_def)
qed

lemma retry_calls_bound:
  "length (embed_calls (snd (createEmbeddingsWithRetry_loop w model inputs m a le)))
     \<le> length (embed_calls w) + nat (m - int a)"
proof (induction "nat (m - int a)" arbitrary: w a le)
  case 0
  then have "\<not> int a < m" by simp
  then show ?case by (simp add: retry_exhausted)
next
  case (Suc x)
  then have lt: "int a < m" by linarith
  show ?case
  proof (cases "embeddings_create w (length (embed_calls w)) model inputs")
    case (EmbedOk es)
    from retry_ok[OF lt this] lt show ?thesis by simp
  next
    case (EmbedFailed err)
    show ?thesis
    proof (cases "retryable err")
      case False
      from retry_fatal[OF lt EmbedFailed this] lt show ?thesis by simp
    next
      case True
      let ?w = "w\<lparr>embed_calls := embed_calls w @ [(model, inputs)],
                random_draws := random_draws w + 1,
                sleeps := sleeps w @ [min (1000 * 2 ^ a + math_random w (random_draws w) * 250) 8000]\<rparr>"
      have "x = nat (m - int (a + 1))" using Suc(2) by simp
      from Suc(1)[OF this, of ?w "Some err"]
      have "length (embed_calls (snd (createEmbeddingsWithRetry_loop ?w model inputs m (a + 1) (Some err))))
              \<le> length (embed_calls w) + 1 + nat (m - int (a + 1))"
        by simp
      with retry_again[OF lt EmbedFailed True, of le] lt show ?thesis by simp
    qed
  qed
qed

lemma backoff_bounds:
  assumes "0 \<le> math_random w (random_draws w + k)" "math_random w (random_draws w + k) < 1"
  shows "\<exists>x. 1000 * 2 ^ (a + k) \<le> x \<and> x \<le> 1000 * 2 ^ (a + k) + 250 \<and> backoff w a k = min x 8000"
proof -
  let ?x = "1000 * 2 ^ (a + k) + math_random w (random_draws w + k) * 250"
  have "1000 * 2 ^ (a + k) \<le> ?x" using assms(1) by simp
  moreover have "?x \<le> 1000 * 2 ^ (a + k) + 250" using assms(2) by simp
  ultimately show ?thesis unfolding backoff_def by blast
qed

lemma retry_outcome:
  assumes fails: "\<forall>k<n. \<exists>err. response_at w model inputs k = EmbedFailed err \<and> retryable err"
    and stop: "int n = maxRetries \<or>
               (int n < maxRetries \<and>
                (\<forall>err. response_at w model inputs n = EmbedFailed err \<longrightarrow> \<not> retryable err))"
  shows "createEmbeddingsWithRetry w model inputs maxRetries =
           (if int n < maxRetries
            then ((case response_at w model inputs n of
                     EmbedOk es \<Rightarrow> Inr es
                   | EmbedFailed err \<Rightarrow> Inl (Thrown err)),
                  (after_retries w model inputs 0 n)
                    \<lparr>embed_calls := embed_calls (after_retries w model inputs 0 n)
                                      @ [(model, inputs)]\<rparr>)
            else (Inl (case (if n = 0 then None
                             else failure_of (response_at w model inputs (n - 1))) of
                         None \<Rightarrow> ThrownUndefined
                       | Some e \<Rightarrow> Thrown e),
                  after_retries w model inputs 0 n))"
proof -
  let ?wn = "after_retries w model inputs 0 n"
  let ?le = "if n = 0 then None else failure_of (response_at w model inputs (n - 1))"
  have le: "int (0 + n) \<le> maxRetries" using stop by auto
  have run: "createEmbeddingsWithRetry w model inputs maxRetries
             = createEmbeddingsWithRetry_loop ?wn model inputs maxRetries n ?le"
    using retry_run[OF fails le, of None] by (simp add: createEmbeddingsWithRetry_def)
  show ?thesis
  proof (cases "int n < maxRetries")
    case False
    from retry_exhausted[OF False, of ?wn model inputs ?le] False show ?thesis
      by (simp only: run if_False)
  next
    case True
    show ?thesis
    proof (cases "response_at w model inputs n")
      case (EmbedOk es)
      then have "embeddings_create ?wn (length (embed_calls ?wn)) model inputs = EmbedOk es"
        by (simp add: response_at_def)
      from retry_ok[OF True this, of ?le] True EmbedOk show ?thesis
        by (simp add: run)
    next
      case (EmbedFailed err)
      then have e: "embeddings_create ?wn (length (embed_calls ?wn)) model inputs = EmbedFailed err"
        by (simp add: response_at_def)
      have "\<not> retryable err" using stop True EmbedFailed by auto
      from retry_fatal[OF True e this, of ?le] True EmbedFailed show ?thesis
        by (simp add: run)
    qed
  qed
qed

section \<open>Properties of one batch\<close>

lemma retry_frame:
  "\<exists>c ds. snd (createEmbeddingsWithRetry_loop w model inputs m a le)
            = w\<lparr>embed_calls := embed_calls w @ replicate c (model, inputs),
                 random_draws := random_draws w + length ds,
                 sleeps := sleeps w @ ds\<rparr>
          \<and> (\<forall>es. fst (createEmbeddingsWithRetry_loop w model inputs m a le) = Inr es
                 \<longrightarrow> 0 < c \<and> (\<exists>k. embeddings_create w k model inputs = EmbedOk es))"
proof (induction "nat (m - int a)" arbitrary: w a le)
  case 0
  then have "\<not> int a < m" by simp
  then show ?case
    by (intro exI[of _ 0] exI[of _ "[]"]) (simp add: retry_exhausted)
next
  case (Suc x)
  then have lt: "int a < m" by linarith
  show ?case
  proof (cases "embeddings_create w (length (embed_calls w)) model inputs")
    case (EmbedOk es)
    from retry_ok[OF lt this, of le] EmbedOk show ?thesis
      by (intro exI[of _ 1] exI[of _ "[]"]) auto
  next
    case (EmbedFailed err)
    show ?thesis
    proof (cases "retryable err")
      case False
      from retry_fatal[OF lt EmbedFailed this, of le] show ?thesis
        by (intro exI[of _ 1] exI[of _ "[]"]) auto
    next
      case True
      let ?d = "min (1000 * 2 ^ a + math_random w (random_draws w) * 250) 8000"
      let ?w = "w\<lparr>embed_calls := embed_calls w @ [(model, inputs)],
                random_draws := random_draws w + 1,
                sleeps := sleeps w @ [?d]\<rparr>"
      let ?res = "createEmbeddingsWithRetry_loop ?w model inputs m (a + 1) (Some err)"
      have "x = nat (m - int (a + 1))" using Suc(2) by simp
      from Suc(1)[OF this, of ?w "Some err"] obtain c ds where
        s: "snd ?res = ?w\<lparr>embed_calls := embed_calls ?w @ replicate c (model, inputs),
                 random_draws := random_draws ?w + length ds,
                 sleeps := sleeps ?w @ ds\<rparr>"
        and f: "\<forall>es. fst ?res = Inr es
                 \<longrightarrow> 0 < c \<and> (\<exists>k. embeddings_create ?w k model inputs = EmbedOk es)"
        by blast
      have eq: "createEmbeddingsWithRetry_loop w model inputs m a le = ?res"
        by (rule retry_again[OF lt EmbedFailed True])
      show ?thesis
        unfolding eq using s f
        by (intro exI[of _ "Suc c"] exI[of _ "?d # ds"]) (simp add: replicate_append_same)
    qed
  qed
qed

lemma push_vectors_eq:
  "push_vectors options es nonEmpty j vs =
     (if es = [] \<or> j + length es \<le> length nonEmpty
      then Inr (vs @ map (\<lambda>(e, x). mk_vector options e x) (zip es (drop j nonEmpty)))
      else Inl TypeError)"
proof (induction es arbitrary: j vs)
  case Nil
  then show ?case by simp
next
  case (Cons e es)
  show ?case
  proof (cases "j < length nonEmpty")
    case False
    then show ?thesis by simp
  next
    case True
    then have d: "drop j nonEmpty = nonEmpty ! j # drop (Suc j) nonEmpty"
      by (simp add: Cons_nth_drop_Suc)
    show ?thesis
      using True by (auto simp: Cons Let_def d mk_vector_def)
  qed
qed

lemma zip_indices:
  "map (\<lambda>(t, idx). (t, map f [0..<length xs] ! idx)) (zip xs [0..<length xs])
   = map (\<lambda>i. (xs ! i, f i)) [0..<length xs]"
  by (rule nth_equalityI) simp_all

lemma entries_shift:
  assumes "a \<le> b" "b \<le> length chunks"
  shows "map (\<lambda>i. (map js_trim (take n (drop a chunks)) ! i, int a + int i)) [0..<min n (b - a)]
         = map (\<lambda>i. (js_trim (chunks ! i), int i)) [a..<min (a + n) b]"
proof (rule nth_equalityI)
  show "length (map (\<lambda>i. (map js_trim (take n (drop a chunks)) ! i, int a + int i)) [0..<min n (b - a)])
        = length (map (\<lambda>i. (js_trim (chunks ! i), int i)) [a..<min (a + n) b])"
    using assms by auto
next
  fix i
  assume "i < length (map (\<lambda>i. (map js_trim (take n (drop a chunks)) ! i, int a + int i))
                        [0..<min n (b - a)])"
  then have i: "i < n" "i < b - a" by simp_all
  then have "a + i < length chunks" using assms by simp
  with i have "map js_trim (take n (drop a chunks)) ! i = js_trim (chunks ! (a + i))"
    by simp
  moreover have "map (\<lambda>i. (js_trim (chunks ! i), int i)) [a..<min (a + n) b] ! i
                   = (js_trim (chunks ! (a + i)), int (a + i))"
  proof -
    have lt: "i < length [a..<min (a + n) b]" using i by (simp add: min_def)
    have nt: "[a..<min (a + n) b] ! i = a + i"
      by (rule nth_upt) (use i in \<open>auto simp: min_def\<close>)
    show ?thesis by (simp only: nth_map[OF lt] nt)
  qed
  moreover have "map (\<lambda>i. (map js_trim (take n (drop a chunks)) ! i, int a + int i))
                     [0..<min n (b - a)] ! i
                 = (map js_trim (take n (drop a chunks)) ! i, int a + int i)" using i by simp
  ultimately show "map (\<lambda>i. (map js_trim (take n (drop a chunks)) ! i, int a + int i))
                     [0..<min n (b - a)] ! i
                   = map (\<lambda>i. (js_trim (chunks ! i), int i)) [a..<min (a + n) b] ! i"
    by (simp only: of_nat_add)
qed

lemma nonEmpty_entries:
  assumes "0 \<le> start" "start < int (length chunks)" "0 < bs"
  shows "filter (\<lambda>x. length (fst x) > 0)
           (map (\<lambda>(t, idx). (t, map (\<lambda>idx. start + int idx)
                                  [0..<length (map js_trim (js_slice chunks start (start + bs)))] ! idx))
              (zip (map js_trim (js_slice chunks start (start + bs)))
                   [0..<length (map js_trim (js_slice chunks start (start + bs)))]))
         = entries chunks (nat start) (min (nat start + nat bs) (length chunks))"
proof -
  let ?a = "nat start"
  let ?B = "map js_trim (take (nat bs) (drop ?a chunks))"
  have sl: "js_slice chunks start (start + bs) = take (nat bs) (drop ?a chunks)"
    using assms js_slice_nonneg[of start "start + bs" chunks] by simp
  have len: "length ?B = min (nat bs) (length chunks - ?a)" by simp
  have st: "start = int ?a" using assms(1) by simp
  have "map (\<lambda>(t, idx). (t, map (\<lambda>idx. start + int idx) [0..<length ?B] ! idx))
          (zip ?B [0..<length ?B])
        = map (\<lambda>i. (?B ! i, start + int i)) [0..<length ?B]"
    by (rule zip_indices)
  also have "\<dots> = map (\<lambda>i. (?B ! i, int ?a + int i)) [0..<min (nat bs) (length chunks - ?a)]"
    using st by (simp only: len)
  also have "\<dots> = map (\<lambda>i. (js_trim (chunks ! i), int i))
                      [?a..<min (?a + nat bs) (length chunks)]"
    using assms by (intro entries_shift) simp_all
  finally show ?thesis
    by (simp only: sl entries_def length_greater_0_conv)
qed

lemma embedAllChunks_batch_eq:
  assumes "0 \<le> start" "start < int (length chunks)"
    and "0 < or_default (opt_batchSize options) 64"
  shows "embedAllChunks_batch w chunks options start vectors =
     (let ne = entries chunks (nat start)
                 (min (nat start + nat (or_default (opt_batchSize options) 64)) (length chunks))
      in if ne = [] then (Inr vectors, w)
         else
           (case createEmbeddingsWithRetry w
                   (or_default (opt_model options) (lit ''text-embedding-3-small''))
                   (map fst ne) (or_default (opt_maxRetries options) 5) of
              (Inl err, w') \<Rightarrow> (Inl err, w')
            | (Inr es, w') \<Rightarrow>
                (if length es \<le> length ne
                 then Inr (vectors @ map (\<lambda>(e, x). mk_vector options e x) (zip es ne))
                 else Inl TypeError, w')))"
  unfolding embedAllChunks_batch_def Let_def nonEmpty_entries[OF assms]
  by (auto simp: push_vectors_eq split: prod.splits sum.splits)

section \<open>Properties of the batch loop\<close>

lemma embedAllChunks_loop_rule:
  assumes bs: "0 < or_default (opt_batchSize options) 64"
    and start: "0 \<le> start"
    and inv: "I start vectors w"
    and step: "\<And>s vs w vs' w'.
                 \<lbrakk>0 \<le> s; s < int (length chunks); I s vs w;
                  embedAllChunks_batch w chunks options s vs = (Inr vs', w')\<rbrakk>
                 \<Longrightarrow> I (s + or_default (opt_batchSize options) 64) vs' w'"
  shows "\<exists>r w'. embedAllChunks_loop w chunks options start vectors = Some (r, w') \<and>
                (\<forall>vs. r = Inr vs \<longrightarrow> (\<exists>s. int (length chunks) \<le> s \<and> I s vs w'))"
  using start inv
proof (induction "nat (int (length chunks) - start)" arbitrary: start vectors w rule: less_induct)
  case less
  show ?case
  proof (cases "start < int (length chunks)")
    case False
    then have "int (length chunks) \<le> start \<and> I start vectors w"
      using less.prems by simp
    then have "\<exists>s. int (length chunks) \<le> s \<and> I s vectors w" by blast
    with False show ?thesis
      by (subst embedAllChunks_loop.simps) simp
  next
    case True
    obtain r w1 where b: "embedAllChunks_batch w chunks options start vectors = (r, w1)"
      by (cases "embedAllChunks_batch w chunks options start vectors")
    show ?thesis
    proof (cases r)
      case (Inl err)
      with True b show ?thesis
        by (subst embedAllChunks_loop.simps) simp
    next
      case (Inr vs1)
      let ?s = "start + or_default (opt_batchSize options) 64"
      have i: "I ?s vs1 w1"
        using step[OF less.prems(1) True less.prems(2)] b Inr by simp
      have m: "nat (int (length chunks) - ?s) < nat (int (length chunks) - start)"
        using bs True by linarith
      have p: "0 \<le> ?s" using bs less.prems(1) by simp
      from less.hyps[OF m p i] obtain r' w' where
        "embedAllChunks_loop w1 chunks options ?s vs1 = Some (r', w')"
        "\<forall>vs. r' = Inr vs \<longrightarrow> (\<exists>s. int (length chunks) \<le> s \<and> I s vs w')"
        by blast
      with True b Inr show ?thesis
        by (subst embedAllChunks_loop.simps) simp
    qed
  qed
qed



lemma entries_mem:
  "x \<in> set (entries chunks a b) \<longleftrightarrow>
     (\<exists>i. a \<le> i \<and> i < b \<and> x = (js_trim (chunks ! i), int i) \<and> js_trim (chunks ! i) \<noteq> [])"
  by (auto simp: entries_def)

lemma entries_length: "length (entries chunks a b) \<le> b - a"
  unfolding entries_def by (rule order_trans[OF length_filter_le]) simp

lemma retry_world:
  assumes "createEmbeddingsWithRetry w model inputs m = (r, w')"
  shows "embeddings_create w' = embeddings_create w"
    and "\<exists>c. embed_calls w' = embed_calls w @ replicate c (model, inputs) \<and> (\<forall>es. r = Inr es \<longrightarrow> 0 < c)"
    and "r = Inr es \<Longrightarrow> \<exists>k. embeddings_create w k model inputs = EmbedOk es"
proof -
  from retry_frame[of w model inputs m 0 None] assms obtain c ds where
    w': "w' = w\<lparr>embed_calls := embed_calls w @ replicate c (model, inputs),
                 random_draws := random_draws w + length ds,
                 sleeps := sleeps w @ ds\<rparr>"
    and r: "\<forall>es. r = Inr es \<longrightarrow> 0 < c \<and> (\<exists>k. embeddings_create w k model inputs = EmbedOk es)"
    by (auto simp: createEmbeddingsWithRetry_def)
  show "embeddings_create w' = embeddings_create w" by (simp add: w')
  show "\<exists>c. embed_calls w' = embed_calls w @ replicate c (model, inputs) \<and> (\<forall>es. r = Inr es \<longrightarrow> 0 < c)"
    using r by (intro exI[of _ c]) (simp add: w')
  show "r = Inr es \<Longrightarrow> \<exists>k. embeddings_create w k model inputs = EmbedOk es"
    using r by simp
qed

lemma embedAllChunks_batch_cases:
  assumes "0 \<le> s" "s < int (length chunks)" "0 < or_default (opt_batchSize options) 64"
    and b: "embedAllChunks_batch w chunks options s vs = (Inr vs', w')"
  obtains (skip)
      "entries chunks (nat s)
         (min (nat s + nat (or_default (opt_batchSize options) 64)) (length chunks)) = []"
      "vs' = vs" "w' = w"
    | (embed) es where
      "entries chunks (nat s)
         (min (nat s + nat (or_default (opt_batchSize options) 64)) (length chunks)) \<noteq> []"
      "createEmbeddingsWithRetry w (or_default (opt_model options) (lit ''text-embedding-3-small''))
         (map fst (entries chunks (nat s)
            (min (nat s + nat (or_default (opt_batchSize options) 64)) (length chunks))))
         (or_default (opt_maxRetries options) 5) = (Inr es, w')"
      "length es \<le> length (entries chunks (nat s)
         (min (nat s + nat (or_default (opt_batchSize options) 64)) (length chunks)))"
      "vs' = vs @ map (\<lambda>(e, x). mk_vector options e x)
                   (zip es (entries chunks (nat s)
                      (min (nat s + nat (or_default (opt_batchSize options) 64)) (length chunks))))"
proof -
  let ?ne = "entries chunks (nat s)
               (min (nat s + nat (or_default (opt_batchSize options) 64)) (length chunks))"
  let ?model = "or_default (opt_model options) (lit ''text-embedding-3-small'')"
  let ?call = "createEmbeddingsWithRetry w ?model (map fst ?ne)
                 (or_default (opt_maxRetries options) 5)"
  show ?thesis
  proof (cases "?ne = []")
    case True
    with b embedAllChunks_batch_eq[OF assms(1-3), of w vs] have "vs' = vs" "w' = w"
      by (simp_all add: Let_def)
    with True show ?thesis by (rule skip)
  next
    case False
    obtain r w1 where c: "?call = (r, w1)" by (cases ?call)
    with b embedAllChunks_batch_eq[OF assms(1-3), of w vs] False
    have "(case r of Inl err \<Rightarrow> (Inl err, w1)
           | Inr es \<Rightarrow> (if length es \<le> length ?ne
                         then Inr (vs @ map (\<lambda>(e, x). mk_vector options e x) (zip es ?ne))
                         else Inl TypeError, w1)) = (Inr vs', w')"
      by (simp add: Let_def)
    then obtain es where "r = Inr es" "w1 = w'" "length es \<le> length ?ne"
      "vs' = vs @ map (\<lambda>(e, x). mk_vector options e x) (zip es ?ne)"
      by (cases r) (auto split: if_splits)
    with c False show ?thesis by (intro embed[of es]) simp_all
  qed
qed


lemma embedAllChunks_calls:
  assumes bs: "0 < or_default (opt_batchSize options) 64"
    and run: "embedAllChunks w chunks options = Some (Inr vs, w')"
  shows "\<exists>cs. embed_calls w' = embed_calls w @ cs \<and>
           (\<forall>c\<in>set cs. snd c \<noteq> [] \<and>
              (\<exists>k. c = (or_default (opt_model options) (lit ''text-embedding-3-small''),
                        map fst (entries chunks (k * nat (or_default (opt_batchSize options) 64))
                                   (min (k * nat (or_default (opt_batchSize options) 64)
                                           + nat (or_default (opt_batchSize options) 64))
                                        (length chunks)))))) \<and>
           (\<forall>v\<in>set vs. \<exists>e x. v = mk_vector options e x \<and>
              x \<in> set (entries chunks 0 (length chunks)) \<and>
              (\<exists>c\<in>set cs. fst x \<in> set (snd c)))"
proof -
  let ?bs = "or_default (opt_batchSize options) 64"
  let ?nb = "nat ?bs"
  let ?model = "or_default (opt_model options) (lit ''text-embedding-3-small'')"
  let ?batch = "\<lambda>k. entries chunks (k * ?nb) (min (k * ?nb + ?nb) (length chunks))"
  let ?C = "\<lambda>cs. \<forall>c\<in>set cs. snd c \<noteq> [] \<and> (\<exists>k. c = (?model, map fst (?batch k)))"
  let ?V = "\<lambda>cs vs. \<forall>v\<in>set vs. \<exists>e x. v = mk_vector options e x \<and>
              x \<in> set (entries chunks 0 (length chunks)) \<and>
              (\<exists>c\<in>set cs. fst x \<in> set (snd c))"
  let ?I = "\<lambda>s vs w1. (\<exists>k. s = int (k * ?nb)) \<and>
              (\<exists>cs. embed_calls w1 = embed_calls w @ cs \<and> ?C cs \<and> ?V cs vs)"
  have step: "?I (s + ?bs) vs1' w1'"
    if s: "0 \<le> s" "s < int (length chunks)" and i: "?I s vs1 w1"
      and b: "embedAllChunks_batch w1 chunks options s vs1 = (Inr vs1', w1')"
    for s vs1 w1 vs1' w1'
  proof -
    from i obtain k cs where k: "s = int (k * ?nb)"
      and cs: "embed_calls w1 = embed_calls w @ cs" "?C cs" "?V cs vs1"
      by blast
    have k': "\<exists>k. s + ?bs = int (k * ?nb)"
      using k bs by (intro exI[of _ "Suc k"]) simp
    have ns: "nat s = k * ?nb" by (simp only: k nat_int)
    from s bs b show ?thesis
    proof (cases rule: embedAllChunks_batch_cases)
      case skip
      with k' cs show ?thesis by blast
    next
      case (embed es)
      let ?ne = "?batch k"
      from embed(1) have ne: "?ne \<noteq> []" by (simp add: ns)
      from retry_world(2)[OF embed(2)] obtain c where
        c: "embed_calls w1' = embed_calls w1 @ replicate c (?model, map fst ?ne)" "0 < c"
        by (auto simp: ns)
      let ?cs = "cs @ replicate c (?model, map fst ?ne)"
      have 1: "embed_calls w1' = embed_calls w @ ?cs" using c cs(1) by simp
      have 2: "?C ?cs" using cs(2) ne by auto
      have sub: "set ?ne \<subseteq> set (entries chunks 0 (length chunks))"
        by (auto simp: entries_mem)
      have new: "(?model, map fst ?ne) \<in> set ?cs" using c(2) by simp
      have 3: "?V ?cs vs1'"
      proof
        fix v assume "v \<in> set vs1'"
        then consider "v \<in> set vs1"
          | e x where "(e, x) \<in> set (zip es ?ne)" "v = mk_vector options e x"
          using embed(4) by (auto simp: ns)
        then show "\<exists>e x. v = mk_vector options e x \<and>
              x \<in> set (entries chunks 0 (length chunks)) \<and>
              (\<exists>c\<in>set ?cs. fst x \<in> set (snd c))"
        proof cases
          case 1
          with cs(3) show ?thesis by fastforce
        next
          case 2
          then have x: "x \<in> set ?ne" by (meson set_zip_rightD)
          then have "fst x \<in> set (snd (?model, map fst ?ne))" by simp
          with new x sub 2(2) show ?thesis by blast
        qed
      qed
      from k' 1 2 3 show ?thesis by blast
    qed
  qed
  have "\<exists>r w'. embedAllChunks_loop w chunks options 0 [] = Some (r, w') \<and>
                (\<forall>vs. r = Inr vs \<longrightarrow> (\<exists>s. int (length chunks) \<le> s \<and> ?I s vs w'))"
  proof (rule embedAllChunks_loop_rule[where I = ?I])
    show "0 < ?bs" by (rule bs)
    show "(0::int) \<le> 0" by simp
    show "?I 0 [] w" by (auto intro: exI[of _ 0])
    show "?I (s + ?bs) vs' w'"
      if "0 \<le> s" "s < int (length chunks)" "?I s vs w"
        "embedAllChunks_batch w chunks options s vs = (Inr vs', w')" for s vs w vs' w'
      using that by (rule step)
  qed
  then obtain r0 w0 where
    "embedAllChunks_loop w chunks options 0 [] = Some (r0, w0)"
    "\<forall>vs. r0 = Inr vs \<longrightarrow> (\<exists>s. int (length chunks) \<le> s \<and> ?I s vs w0)"
    by blast
  with run have "\<exists>s. int (length chunks) \<le> s \<and> ?I s vs w'"
    by (simp add: embedAllChunks_def)
  then show ?thesis by blast
qed










section \<open>Concrete runs\<close>


lemma embedAllChunks_sample:
  "embedAllChunks (sample_world (flaky_provider 0 429) (\<lambda>b k. Inr None) (\<lambda>b. Inr None))
         [lit '' a '', lit ''  '', lit ''bc''] (sample_options 2)
       = Some (Inr [mk_vector (sample_options 2) 1 (lit ''a'', 0),
                    mk_vector (sample_options 2) 2 (lit ''bc'', 2)],
               (sample_world (flaky_provider 0 429) (\<lambda>b k. Inr None) (\<lambda>b. Inr None))
                 \<lparr>embed_calls := [(lit ''text-embedding-3-small'', [lit ''a'']),
                                  (lit ''text-embedding-3-small'', [lit ''bc''])]\<rparr>)"
  by (simp add: embedAllChunks_def embedAllChunks_loop.simps embedAllChunks_batch_def
        createEmbeddingsWithRetry_def createEmbeddingsWithRetry_loop.simps
        sample_world_def flaky_provider_def sample_options_def or_default_def
        js_slice_def js_trim_def is_js_whitespace_def lit_def mk_vector_def Let_def)


section \<open>Properties of the ingestion handler\<close>




lemma handler_options_fields [simp]:
  "opt_batchSize (handler_options bucketName key) = Some 64"
  "opt_idPrefix (handler_options bucketName key)
     = js_replace_all 0x2E 0x2D (js_replace_all 0x2F 0x5F key)"
  by (simp_all add: handler_options_def)





section \<open>Properties of the query handler\<close>

lemma js_get_query_member:
  assumes "b \<noteq> JNull" "b \<noteq> JUndefined"
  shows "js_get b (lit ''query'')
         = Inr (case query_member b of None \<Rightarrow> JUndefined | Some x \<Rightarrow> x)"
  using assms by (cases b) (simp_all add: js_get_def query_member_def split: option.splits)

lemma request_query_blank:
  assumes "js_get b (lit ''query'') = Inr JUndefined \<or>
           (\<exists>s. js_get b (lit ''query'') = Inr (JString s) \<and> js_trim s = [])"
  shows "request_query b = Inr []"
  using assms
  by (auto simp: request_query_def js_falsy_def js_trim_def)

lemma request_query_member_blank:
  assumes "b \<noteq> JNull" "b \<noteq> JUndefined"
    and "query_member b = None \<or> (\<exists>s. query_member b = Some (JString s) \<and> js_trim s = [])"
  shows "request_query b = Inr []"
  using assms(3) js_get_query_member[OF assms(1,2)]
  by (intro request_query_blank) auto

lemma query_answer_blank:
  assumes "request_query (parseBody (json_parse w) (ev_body event)) = Inr []"
  shows "query_answer w event = (Inr (mk_response 400 (Message (lit ''Missing query''))), w)"
  using assms by (simp add: query_answer_def Let_def)
section \<open>Claims about the chunker\<close>

text \<open>
  Claim C1.  For every text and every configuration with \<open>windowSize > 0\<close> and
  \<open>0 \<le> overlap < windowSize\<close>, \<open>splitText\<close> returns chunks whose union, taken in order
  with the duplicated overlap removed, is the text; and any two consecutive chunks
  \<open>i\<close>, \<open>i + 1\<close> are the slices \<open>[a, b)\<close> and \<open>[a', b')\<close> of the text with
  \<open>a < a' \<le> b < b'\<close> and \<open>b - a' = overlap\<close>: they share exactly \<open>overlap\<close> positions
  (this holds for the final pair as well).
\<close>

theorem splitText_covers_and_overlaps:
  assumes "0 < windowSize" "0 \<le> overlap" "overlap < windowSize"
  shows "\<exists>chunks. splitText text windowSize overlap = Some chunks \<and>
           join_chunks (nat overlap) chunks = text \<and>
           (\<forall>i. Suc i < length chunks \<longrightarrow>
              (let a = int i * (windowSize - overlap);
                   b = a + windowSize;
                   a' = b - overlap;
                   b' = min (a' + windowSize) (int (length text))
               in chunks ! i = js_slice text a b \<and>
                  chunks ! Suc i = js_slice text a' b' \<and>
                  a < a' \<and> a' \<le> b \<and> b < b' \<and> b - a' = overlap))"
proof -
  obtain chunks where c: "splitText text windowSize overlap = Some chunks"
    using splitText_windows[OF assms] by blast
  have j: "join_chunks (nat overlap) chunks = text"
    by (rule splitText_join[OF assms c])
  have "let a = int i * (windowSize - overlap);
            b = a + windowSize;
            a' = b - overlap;
            b' = min (a' + windowSize) (int (length text))
        in chunks ! i = js_slice text a b \<and>
           chunks ! Suc i = js_slice text a' b' \<and>
           a < a' \<and> a' \<le> b \<and> b < b' \<and> b - a' = overlap"
    if i: "Suc i < length chunks" for i
  proof -
    have inner: "int i * (windowSize - overlap) + windowSize < int (length text)"
      by (rule splitText_chunk_inner[OF assms c i])
    have "i < length chunks" using i by simp
    from splitText_chunk_slice[OF assms c this] inner
    have ci: "chunks ! i = js_slice text (int i * (windowSize - overlap))
                 (int i * (windowSize - overlap) + windowSize)"
      by (simp add: min_def)
    have e: "int (Suc i) * (windowSize - overlap)
               = int i * (windowSize - overlap) + windowSize - overlap"
      by (simp add: algebra_simps)
    from splitText_chunk_slice[OF assms c i]
    have cs: "chunks ! Suc i = js_slice text (int i * (windowSize - overlap) + windowSize - overlap)
                 (min (int i * (windowSize - overlap) + windowSize - overlap + windowSize)
                      (int (length text)))"
      by (simp only: e)
    show ?thesis
      unfolding Let_def using ci cs inner assms by simp
  qed
  with c j show ?thesis by blast
qed

theorem splitText_covers_and_overlaps_witness:
  "(0::int) < 4 \<and> (0::int) \<le> 1 \<and> (1::int) < 4 \<and>
   (\<exists>chunks. splitText [1, 2, 3, 4, 5, 6, 7, 8, 9] 4 1 = Some chunks \<and>
      chunks = [[1, 2, 3, 4], [4, 5, 6, 7], [7, 8, 9]] \<and>
      join_chunks 1 chunks = [1, 2, 3, 4, 5, 6, 7, 8, 9])"
proof -
  have r: "splitText [1, 2, 3, 4, 5, 6, 7, 8, 9] 4 1 = Some [[1, 2, 3, 4], [4, 5, 6, 7], [7, 8, 9]]"
    by (simp add: splitText_def splitText_loop.simps js_slice_def)
  from splitText_covers_and_overlaps[of 4 1 "[1, 2, 3, 4, 5, 6, 7, 8, 9]"] r
  show ?thesis by simp
qed

text \<open>
  Claim C2.  Under the same preconditions, a text longer than \<open>windowSize\<close> yields
  exactly \<open>\<lceil>(len - overlap) / (windowSize - overlap)\<rceil>\<close> chunks; a text of 2400 code units
  with window 1000 and overlap 200 yields the three slices \<open>[0,1000)\<close>, \<open>[800,1800)\<close>,
  \<open>[1600,2400)\<close>, the last of length 800; the empty text yields no chunk, and a
  non-empty text no longer than the window yields the text as its only chunk.
\<close>

theorem splitText_chunk_count:
  assumes "0 < windowSize" "0 \<le> overlap" "overlap < windowSize"
  shows "\<exists>chunks. splitText text windowSize overlap = Some chunks \<and>
           (windowSize < int (length text) \<longrightarrow>
              int (length chunks)
                = \<lceil>real_of_int (int (length text) - overlap) / real_of_int (windowSize - overlap)\<rceil>) \<and>
           (length text = 2400 \<and> windowSize = 1000 \<and> overlap = 200 \<longrightarrow>
              chunks = [js_slice text 0 1000, js_slice text 800 1800, js_slice text 1600 2400] \<and>
              length (chunks ! 2) = 800) \<and>
           (text = [] \<longrightarrow> chunks = []) \<and>
           (text \<noteq> [] \<and> int (length text) \<le> windowSize \<longrightarrow> chunks = [text])"
proof -
  obtain chunks where c: "splitText text windowSize overlap = Some chunks"
    using splitText_windows[OF assms] by blast
  have 1: "int (length chunks)
             = \<lceil>real_of_int (int (length text) - overlap) / real_of_int (windowSize - overlap)\<rceil>"
    if "windowSize < int (length text)"
    by (rule splitText_count[OF assms that c])
  have 2: "chunks = [js_slice text 0 1000, js_slice text 800 1800, js_slice text 1600 2400] \<and>
           length (chunks ! 2) = 800"
    if s: "length text = 2400 \<and> windowSize = 1000 \<and> overlap = 200"
  proof -
    have ch: "chunks = [js_slice text 0 1000, js_slice text 800 1800, js_slice text 1600 2400]"
      using splitText_scenario_2400[of "text"] s c by simp
    have "length (js_slice text 1600 2400) = 800"
      using s by (simp add: js_slice_def)
    with ch show ?thesis by simp
  qed
  have 3: "chunks = []" if "text = []"
    using splitText_empty[of windowSize overlap] that c by simp
  have 4: "chunks = [text]" if "text \<noteq> [] \<and> int (length text) \<le> windowSize"
    using splitText_single[of "text" windowSize overlap] that c by simp
  from c 1 2 3 4 show ?thesis by blast
qed

theorem splitText_chunk_count_witness:
  "(0::int) < 1000 \<and> (0::int) \<le> 200 \<and> (200::int) < 1000 \<and>
   (\<exists>chunks. splitText (map of_nat [0..<2400]) 1000 200 = Some chunks \<and>
      chunks = [map of_nat [0..<1000], map of_nat [800..<1800], map of_nat [1600..<2400]] \<and>
      int (length chunks) = \<lceil>real_of_int (2400 - 200) / real_of_int (1000 - 200)\<rceil>)"
  using splitText_chunk_count[of 1000 200 "map of_nat [0..<2400]"]
  by (simp add: js_slice_def take_map drop_map del: upt_rec_numeral)

text \<open>
  Claim C6 as stated: a call of \<open>splitText\<close> that violates \<open>windowSize > 0\<close>,
  \<open>0 \<le> overlap < windowSize\<close> fails with an \<open>InvalidConfiguration\<close> error.  The function
  validates nothing: with window 1 and overlap 5 on a one-unit text it returns that
  text as a single chunk.
\<close>

theorem splitText_invalid_config_counterexample:
  "\<not> (0 < (1::int) \<and> (0::int) \<le> 5 \<and> (5::int) < 1) \<and> splitText [0x61] 1 5 = Some [[0x61]]"
  by (simp add: splitText_def splitText_loop.simps js_slice_def)


text \<open>
  Claim C6, amended.  When the preconditions are violated \<open>splitText\<close> raises no error:
  it returns the empty sequence for the empty text, the text itself as a single chunk
  when the text is non-empty and no longer than the window, it returns some chunk
  sequence exactly when the text is empty, \<open>overlap < windowSize\<close> or the text is no
  longer than the window, and otherwise (non-empty text longer than the window, with
  \<open>windowSize \<le> overlap\<close>) it never returns.
\<close>

theorem splitText_invalid_config:
  assumes "\<not> (0 < windowSize \<and> 0 \<le> overlap \<and> overlap < windowSize)"
  shows "(text = [] \<longrightarrow> splitText text windowSize overlap = Some []) \<and>
         (text \<noteq> [] \<and> int (length text) \<le> windowSize \<longrightarrow>
            splitText text windowSize overlap = Some [text]) \<and>
         ((\<exists>chunks. splitText text windowSize overlap = Some chunks)
            \<longleftrightarrow> text = [] \<or> overlap < windowSize \<or> int (length text) \<le> windowSize) \<and>
         (splitText text windowSize overlap = None
            \<longleftrightarrow> text \<noteq> [] \<and> windowSize \<le> overlap \<and> windowSize < int (length text))"
proof (intro conjI impI)
  assume "text = []"
  then show "splitText text windowSize overlap = Some []" by (simp add: splitText_empty)
next
  assume "text \<noteq> [] \<and> int (length text) \<le> windowSize"
  then show "splitText text windowSize overlap = Some [text]" by (simp add: splitText_single)
next
  show "(\<exists>chunks. splitText text windowSize overlap = Some chunks)
            \<longleftrightarrow> text = [] \<or> overlap < windowSize \<or> int (length text) \<le> windowSize"
    by (rule splitText_returns_iff)
next
  have "splitText text windowSize overlap = None
          \<longleftrightarrow> \<not> (\<exists>chunks. splitText text windowSize overlap = Some chunks)"
    by auto
  then show "splitText text windowSize overlap = None
            \<longleftrightarrow> text \<noteq> [] \<and> windowSize \<le> overlap \<and> windowSize < int (length text)"
    unfolding splitText_returns_iff by auto
qed

theorem splitText_invalid_config_witness:
  "\<not> (0 < (2::int) \<and> (0::int) \<le> 2 \<and> (2::int) < 2) \<and> splitText [1, 2, 3] 2 2 = None \<and>
   \<not> (0 < (-1::int) \<and> (0::int) \<le> -5 \<and> (-5::int) < -1) \<and>
   (\<exists>chunks. splitText [1, 2, 3] (-1) (-5) = Some chunks)"
  using splitText_invalid_config[of 2 2 "[1, 2, 3]"]
    splitText_invalid_config[of "-1" "-5" "[1, 2, 3]"]
  by simp

text \<open>
  Claim C9.  Whenever \<open>windowSize > 0\<close> and \<open>0 \<le> overlap < windowSize\<close>, \<open>splitText\<close>
  returns for every text; each iteration of its loop, entered at a position
  \<open>0 \<le> start < len\<close>, either ends the loop (the window reaches the end of the text) or
  continues at \<open>start + (windowSize - overlap)\<close>, which is strictly greater than \<open>start\<close>.
\<close>

theorem splitText_terminates:
  assumes "0 < windowSize" "0 \<le> overlap" "overlap < windowSize"
  shows "(\<exists>chunks. splitText text windowSize overlap = Some chunks) \<and>
         (\<forall>start acc. 0 \<le> start \<and> start < int (length text) \<longrightarrow>
            (int (length text) \<le> start + windowSize \<and>
             splitText_loop text windowSize overlap start acc
               = Some (acc @ [js_slice text start (int (length text))]))
          \<or> (start + windowSize < int (length text) \<and>
             start < start + (windowSize - overlap) \<and>
             splitText_loop text windowSize overlap start acc
               = splitText_loop text windowSize overlap (start + (windowSize - overlap))
                   (acc @ [js_slice text start (start + windowSize)])))"
proof (intro conjI allI impI)
  show "\<exists>chunks. splitText text windowSize overlap = Some chunks"
    using splitText_loop_returns[of overlap windowSize 0 "text" "[]"] assms
    by (simp add: splitText_def)
next
  fix start acc
  assume a: "0 \<le> start \<and> start < int (length text)"
  show "(int (length text) \<le> start + windowSize \<and>
             splitText_loop text windowSize overlap start acc
               = Some (acc @ [js_slice text start (int (length text))]))
          \<or> (start + windowSize < int (length text) \<and>
             start < start + (windowSize - overlap) \<and>
             splitText_loop text windowSize overlap start acc
               = splitText_loop text windowSize overlap (start + (windowSize - overlap))
                   (acc @ [js_slice text start (start + windowSize)]))"
  proof (cases "int (length text) \<le> start + windowSize")
    case True
    with a have "splitText_loop text windowSize overlap start acc
                   = Some (acc @ [js_slice text start (int (length text))])"
      by (subst splitText_loop.simps) (simp add: Let_def min_def)
    with True show ?thesis by simp
  next
    case False
    have "max 0 (start + windowSize - overlap) = start + (windowSize - overlap)"
      using a assms by simp
    with False a have "splitText_loop text windowSize overlap start acc
               = splitText_loop text windowSize overlap (start + (windowSize - overlap))
                   (acc @ [js_slice text start (start + windowSize)])"
      by (subst splitText_loop.simps) (simp add: Let_def min_def)
    with False assms show ?thesis by simp
  qed
qed

theorem splitText_terminates_witness:
  "(0::int) < 3 \<and> (0::int) \<le> 1 \<and> (1::int) < 3 \<and>
   splitText [1, 2, 3, 4, 5, 6] 3 1 = Some [[1, 2, 3], [3, 4, 5], [5, 6]]"
proof -
  have "\<exists>chunks. splitText [1, 2, 3, 4, 5, 6] 3 1 = Some chunks"
    using splitText_terminates[of 3 1 "[1, 2, 3, 4, 5, 6]"] by simp
  moreover have "splitText_loop [1, 2, 3, 4, 5, 6] 3 1 0 [] = Some [[1, 2, 3], [3, 4, 5], [5, 6]]"
    by (simp add: splitText_loop.simps js_slice_def)
  ultimately show ?thesis by (simp add: splitText_def)
qed


section \<open>Claims about the embedding batcher\<close>

text \<open>
  Claim C3.  Let the first \<open>n\<close> answers of the provider be failures with status 429 or
  5xx, and let the run of such failures end there: either \<open>n = maxRetries\<close>, or
  \<open>n < maxRetries\<close> and answer \<open>n\<close> is a success or a failure with another status.  Then
  \<open>createEmbeddingsWithRetry\<close> never makes more than \<open>maxRetries\<close> calls; it sleeps exactly
  \<open>n\<close> times, the delay after the failed attempt \<open>a\<close> being \<open>min x 8000\<close> for some \<open>x\<close> in
  \<open>[1000 * 2^a, 1000 * 2^a + 250]\<close> (given \<open>Math.random()\<close> in \<open>[0, 1)\<close>); when
  \<open>n < maxRetries\<close> it makes \<open>n + 1\<close> calls and ends with answer \<open>n\<close>: the embeddings of a
  success, or the error of a failure with another status, rethrown at once with no
  further sleep or call; when \<open>n = maxRetries\<close> it makes \<open>n\<close> calls and rethrows the last
  error.
\<close>

theorem createEmbeddingsWithRetry_policy:
  assumes fails: "\<forall>k<n. \<exists>err. response_at w model inputs k = EmbedFailed err \<and> retryable err"
    and stop: "int n = maxRetries \<or>
               (int n < maxRetries \<and>
                (\<forall>err. response_at w model inputs n = EmbedFailed err \<longrightarrow> \<not> retryable err))"
    and rnd: "\<forall>k. 0 \<le> math_random w k \<and> math_random w k < 1"
  shows "\<exists>r w'. createEmbeddingsWithRetry w model inputs maxRetries = (r, w') \<and>
           length (embed_calls w') \<le> length (embed_calls w) + nat maxRetries \<and>
           (\<exists>delays. sleeps w' = sleeps w @ delays \<and> length delays = n \<and>
              (\<forall>a<n. \<exists>x. 1000 * 2 ^ a \<le> x \<and> x \<le> 1000 * 2 ^ a + 250 \<and>
                           delays ! a = min x 8000)) \<and>
           (int n < maxRetries \<longrightarrow>
              embed_calls w' = embed_calls w @ replicate (n + 1) (model, inputs) \<and>
              (\<forall>es. response_at w model inputs n = EmbedOk es \<longrightarrow> r = Inr es) \<and>
              (\<forall>err. response_at w model inputs n = EmbedFailed err \<longrightarrow> r = Inl (Thrown err))) \<and>
           (int n = maxRetries \<longrightarrow>
              embed_calls w' = embed_calls w @ replicate n (model, inputs) \<and>
              (\<forall>err. 0 < n \<and> response_at w model inputs (n - 1) = EmbedFailed err \<longrightarrow>
                     r = Inl (Thrown err)))"
proof -
  let ?wn = "after_retries w model inputs 0 n"
  let ?delays = "map (backoff w 0) [0..<n]"
  obtain r w' where res: "createEmbeddingsWithRetry w model inputs maxRetries = (r, w')"
    by (cases "createEmbeddingsWithRetry w model inputs maxRetries")
  note out = retry_outcome[OF fails stop, unfolded res]
  have calls: "length (embed_calls w') \<le> length (embed_calls w) + nat maxRetries"
    using retry_calls_bound[of w model inputs maxRetries 0 None] res
    by (simp add: createEmbeddingsWithRetry_def)
  have sl: "sleeps w' = sleeps w @ ?delays"
    using out by (auto split: if_splits)
  have delays: "\<forall>a<n. \<exists>x. 1000 * 2 ^ a \<le> x \<and> x \<le> 1000 * 2 ^ a + 250 \<and> ?delays ! a = min x 8000"
  proof (intro allI impI)
    fix a assume "a < n"
    with backoff_bounds[of w a 0] rnd
    show "\<exists>x. 1000 * 2 ^ a \<le> x \<and> x \<le> 1000 * 2 ^ a + 250 \<and> ?delays ! a = min x 8000"
      by simp
  qed
  have before: "int n < maxRetries \<longrightarrow>
              embed_calls w' = embed_calls w @ replicate (n + 1) (model, inputs) \<and>
              (\<forall>es. response_at w model inputs n = EmbedOk es \<longrightarrow> r = Inr es) \<and>
              (\<forall>err. response_at w model inputs n = EmbedFailed err \<longrightarrow> r = Inl (Thrown err))"
    using out by (auto simp: replicate_append_same)
  have at_cap: "int n = maxRetries \<longrightarrow>
              embed_calls w' = embed_calls w @ replicate n (model, inputs) \<and>
              (\<forall>err. 0 < n \<and> response_at w model inputs (n - 1) = EmbedFailed err \<longrightarrow>
                     r = Inl (Thrown err))"
    using out by (auto simp: failure_of_def)
  from res calls sl delays before at_cap show ?thesis
    by (intro exI[of _ r] exI[of _ w'] conjI exI[of _ ?delays]) simp_all
qed

theorem createEmbeddingsWithRetry_policy_witness:
  "response_at (sample_world (flaky_provider 2 429) (\<lambda>b k. Inr None) (\<lambda>b. Inr None))
     (lit ''m'') [lit ''ab''] 0
     = (EmbedFailed \<lparr>err_status = Some 429, err_response_status = None\<rparr> :: nat embed_result) \<and>
   response_at (sample_world (flaky_provider 2 429) (\<lambda>b k. Inr None) (\<lambda>b. Inr None))
     (lit ''m'') [lit ''ab''] 1
     = (EmbedFailed \<lparr>err_status = Some 429, err_response_status = None\<rparr> :: nat embed_result) \<and>
   retryable \<lparr>err_status = Some 429, err_response_status = None\<rparr> \<and>
   (\<exists>w'. createEmbeddingsWithRetry
            (sample_world (flaky_provider 2 429) (\<lambda>b k. Inr None) (\<lambda>b. Inr None))
            (lit ''m'') [lit ''ab''] 5 = (Inr [2], w') \<and>
          embed_calls w' = [(lit ''m'', [lit ''ab'']), (lit ''m'', [lit ''ab'']), (lit ''m'', [lit ''ab''])] \<and>
          sleeps w' = [1125, 2125])"
proof -
  let ?w = "sample_world (flaky_provider 2 429) (\<lambda>b k. Inr None) (\<lambda>b. Inr None) :: nat world"
  have f: "\<forall>k<2. \<exists>err. response_at ?w (lit ''m'') [lit ''ab''] k = EmbedFailed err \<and> retryable err"
    by (simp add: response_at_def sample_world_def flaky_provider_def retryable_def error_status_def)
  have s: "int 2 = 5 \<or> (int 2 < 5 \<and>
             (\<forall>err. response_at ?w (lit ''m'') [lit ''ab''] 2 = EmbedFailed err \<longrightarrow> \<not> retryable err))"
    by (simp add: response_at_def sample_world_def flaky_provider_def)
  have r: "\<forall>k. 0 \<le> math_random ?w k \<and> math_random ?w k < 1"
    by (simp add: sample_world_def)
  have e: "createEmbeddingsWithRetry ?w (lit ''m'') [lit ''ab''] 5
       = (Inr [2], ?w\<lparr>embed_calls := [(lit ''m'', [lit ''ab'']), (lit ''m'', [lit ''ab'']),
                                       (lit ''m'', [lit ''ab''])],
                       random_draws := 2, sleeps := [1125, 2125]\<rparr>)"
    by (simp add: createEmbeddingsWithRetry_def createEmbeddingsWithRetry_loop.simps
        sample_world_def flaky_provider_def error_status_def Let_def lit_def)
  have a: "response_at ?w (lit ''m'') [lit ''ab''] 0
             = EmbedFailed \<lparr>err_status = Some 429, err_response_status = None\<rparr>"
          "response_at ?w (lit ''m'') [lit ''ab''] 1
             = EmbedFailed \<lparr>err_status = Some 429, err_response_status = None\<rparr>"
          "retryable \<lparr>err_status = Some 429, err_response_status = None\<rparr>"
    by (simp_all add: response_at_def sample_world_def flaky_provider_def retryable_def
          error_status_def)
  from createEmbeddingsWithRetry_policy[OF f s r] a show ?thesis
    unfolding e by simp
qed




text \<open>
  Claim C10.  Every record that \<open>embedAllChunks\<close> returns stores in \<open>metadata.text\<close> the
  trimmed text of the chunk at its \<open>chunk_index\<close>; that text is not empty and is among
  the inputs of a provider call made during the run; and every input of every such
  call is a trimmed, non-empty chunk.
\<close>

theorem embedAllChunks_stores_trimmed_text:
  assumes bs: "0 < or_default (opt_batchSize options) 64"
    and run: "embedAllChunks w chunks options = Some (Inr vs, w')"
  shows "\<exists>cs. embed_calls w' = embed_calls w @ cs \<and>
           (\<forall>v\<in>set vs. \<exists>i<length chunks.
              md_chunk_index (vec_metadata v) = int i \<and>
              md_text (vec_metadata v) = js_trim (chunks ! i) \<and>
              md_text (vec_metadata v) \<noteq> [] \<and>
              (\<exists>c\<in>set cs. md_text (vec_metadata v) \<in> set (snd c))) \<and>
           (\<forall>c\<in>set cs. \<forall>t\<in>set (snd c). t \<noteq> [] \<and> (\<exists>i<length chunks. t = js_trim (chunks ! i)))"
proof -
  let ?nb = "nat (or_default (opt_batchSize options) 64)"
  from embedAllChunks_calls[OF bs run] obtain cs where
    cs: "embed_calls w' = embed_calls w @ cs"
    and c: "\<forall>c\<in>set cs. snd c \<noteq> [] \<and>
              (\<exists>k. c = (or_default (opt_model options) (lit ''text-embedding-3-small''),
                        map fst (entries chunks (k * ?nb) (min (k * ?nb + ?nb) (length chunks)))))"
    and v: "\<forall>v\<in>set vs. \<exists>e x. v = mk_vector options e x \<and>
              x \<in> set (entries chunks 0 (length chunks)) \<and>
              (\<exists>c\<in>set cs. fst x \<in> set (snd c))"
    by blast
  have 1: "\<exists>i<length chunks.
              md_chunk_index (vec_metadata v) = int i \<and>
              md_text (vec_metadata v) = js_trim (chunks ! i) \<and>
              md_text (vec_metadata v) \<noteq> [] \<and>
              (\<exists>c\<in>set cs. md_text (vec_metadata v) \<in> set (snd c))"
    if "v \<in> set vs" for v
  proof -
    from v that obtain e x where
      x: "v = mk_vector options e x" "x \<in> set (entries chunks 0 (length chunks))"
         "\<exists>c\<in>set cs. fst x \<in> set (snd c)"
      by blast
    from x(2) obtain i where
      "i < length chunks" "x = (js_trim (chunks ! i), int i)" "js_trim (chunks ! i) \<noteq> []"
      by (auto simp: entries_mem)
    with x(1,3) show ?thesis by (intro exI[of _ i]) (simp add: mk_vector_def)
  qed
  have 2: "t \<noteq> [] \<and> (\<exists>i<length chunks. t = js_trim (chunks ! i))"
    if "c \<in> set cs" "t \<in> set (snd c)" for c t
  proof -
    from c that(1) obtain k where
      "snd c = map fst (entries chunks (k * ?nb) (min (k * ?nb + ?nb) (length chunks)))"
      by fastforce
    with that(2) obtain x where
      "x \<in> set (entries chunks (k * ?nb) (min (k * ?nb + ?nb) (length chunks)))" "t = fst x"
      by auto
    then show ?thesis by (auto simp: entries_mem)
  qed
  from cs 1 2 show ?thesis by blast
qed

theorem embedAllChunks_stores_trimmed_text_witness:
  "0 < or_default (opt_batchSize (sample_options 2)) 64 \<and>
   (\<exists>vs w'. embedAllChunks
               (sample_world (flaky_provider 0 429) (\<lambda>b k. Inr None) (\<lambda>b. Inr None))
               [lit '' a '', lit ''  '', lit ''bc''] (sample_options 2) = Some (Inr vs, w') \<and>
           map (\<lambda>v. md_text (vec_metadata v)) vs = [lit ''a'', lit ''bc''] \<and>
           map snd (embed_calls w') = [[lit ''a''], [lit ''bc'']])"
proof -
  have bs: "0 < or_default (opt_batchSize (sample_options 2)) 64"
    by (simp add: sample_options_def or_default_def)
  from embedAllChunks_stores_trimmed_text[OF bs embedAllChunks_sample] bs show ?thesis
    unfolding embedAllChunks_sample by (simp add: mk_vector_def sample_world_def)
qed

section \<open>Claims about the ingestion handler\<close>



text \<open>
  Claim C8.  When the text extracted for a record is empty or consists of white space
  only, the loop body ends normally without any call to the embedding provider, without
  sleeping, without any upsert and without deleting the object, and the handler goes on
  with the remaining records.
\<close>

theorem blank_text_is_noop:
  assumes "extracted_text w record = Some rawText" "js_trim rawText = []"
  shows "\<exists>w'. process_record w record = Some (Inr (), w') \<and>
              embed_calls w' = embed_calls w \<and> sleeps w' = sleeps w \<and>
              upsert_calls w' = upsert_calls w \<and> delete_calls w' = delete_calls w \<and>
              pdf_processor_handler w (record # Records) = pdf_processor_handler w' Records"
proof -
  let ?w' = "w\<lparr>get_calls := get_calls w @ [(bucket_name record, object_key record)]\<rparr>"
  from assms have "process_record w record = Some (Inr (), ?w')"
    by (auto simp: extracted_text_def process_record_def Let_def
          split: if_splits sum.splits option.splits)
  then show ?thesis by (intro exI[of _ ?w']) simp
qed

theorem blank_text_is_noop_witness:
  "\<exists>w'. process_record
          (sample_world (flaky_provider 0 503) (\<lambda>b k. Inr (Some [1]))
             (\<lambda>b. Inr (Some (lit ''  ''))))
          \<lparr>bucket_name = lit ''b1'', object_key = lit ''uploads/a.pdf''\<rparr> = Some (Inr (), w') \<and>
        embed_calls w' = [] \<and> upsert_calls w' = [] \<and> delete_calls w' = []"
proof -
  let ?w = "sample_world (flaky_provider 0 503) (\<lambda>b k. Inr (Some [1]))
              (\<lambda>b. Inr (Some (lit ''  '')))"
  let ?r = "\<lparr>bucket_name = lit ''b1'', object_key = lit ''uploads/a.pdf''\<rparr>"
  have x: "extracted_text ?w ?r = Some (lit ''  '')"
    by (simp add: extracted_text_def sample_world_def js_endsWith_def js_startsWith_def
          lit_def or_default_def)
  have t: "js_trim (lit ''  '') = []"
    by (simp add: js_trim_def is_js_whitespace_def lit_def)
  from blank_text_is_noop[OF x t, of "[]"] show ?thesis
    by (auto simp: sample_world_def)
qed

section \<open>Claims about the query handler\<close>

text \<open>
  Claim C7 as stated: every request whose query is empty after trimming, or absent, is
  answered with status 400.  Three requests with a blank or absent query that are not:
  the handler checks the configuration and the HTTP method first, so with a setting
  missing the answer is 500 and a \<open>GET\<close> request is answered with 405; and a \<open>POST\<close>
  request whose body is the JSON text \<open>null\<close> has no query member, but reading
  \<open>body.query\<close> from \<open>null\<close> throws and the answer is 500.
\<close>

theorem query_handler_empty_query_counterexample:
  "js_trim (lit ''  '') = [] \<and>
   statusCode (fst (query_handler (sample_env\<lparr>OPENAI_API_KEY := None\<rparr>) sample_query_world
                      \<lparr>httpMethod = Some (lit ''POST''),
                        ev_body = JObject [(lit ''query'', JString (lit ''  ''))]\<rparr>)) = 500 \<and>
   statusCode (fst (query_handler sample_env sample_query_world
                      \<lparr>httpMethod = Some (lit ''GET''),
                        ev_body = JObject [(lit ''query'', JString (lit ''  ''))]\<rparr>)) = 405 \<and>
   query_member (parseBody (json_parse sample_query_world) (JString (lit ''null''))) = None \<and>
   query_handler sample_env sample_query_world
     \<lparr>httpMethod = Some (lit ''POST''), ev_body = JString (lit ''null'')\<rparr>
   = (mk_response 500 (InternalServerError TypeError), sample_query_world)"
  by (simp add: query_handler_def query_answer_def request_query_def query_member_def
        sample_env_def sample_query_world_def js_missing_def
        mk_response_def parseBody_def js_falsy_def js_get_def js_trim_def is_js_whitespace_def
        lit_def)

text \<open>
  Claim C7, amended.  When the parsed body is neither \<open>null\<close> nor \<open>undefined\<close>, and its
  query member is absent or is a string that is empty after trimming, the handler calls
  neither the embedding provider, nor the index, nor the language model (the world is
  returned unchanged), and it answers with status 500 when one of the three settings
  is missing, otherwise with status 405 when the method is present and not \<open>POST\<close>,
  and otherwise with status 400 and the message \<open>Missing query\<close>.
\<close>

theorem query_handler_empty_query:
  assumes "parseBody (json_parse w) (ev_body event) \<noteq> JNull"
    and "parseBody (json_parse w) (ev_body event) \<noteq> JUndefined"
    and "query_member (parseBody (json_parse w) (ev_body event)) = None \<or>
         (\<exists>s. query_member (parseBody (json_parse w) (ev_body event)) = Some (JString s) \<and>
              js_trim s = [])"
  shows "query_handler env w event =
           (if js_missing (OPENAI_API_KEY env) \<or> js_missing (PINECONE_API_KEY env)
               \<or> js_missing (PINECONE_INDEX_NAME env)
            then mk_response 500 (Message (lit ''Missing required environment variables''))
            else if (case httpMethod event of None \<Rightarrow> False
                     | Some m \<Rightarrow> m \<noteq> [] \<and> m \<noteq> lit ''POST'')
            then mk_response 405 (Message (lit ''Method Not Allowed''))
            else mk_response 400 (Message (lit ''Missing query'')), w)"
  using query_answer_blank[OF request_query_member_blank[OF assms]]
  by (simp add: query_handler_def)

theorem query_handler_empty_query_witness:
  "query_handler sample_env sample_query_world
     \<lparr>httpMethod = Some (lit ''POST''),
       ev_body = JObject [(lit ''query'', JString (lit ''  ''))]\<rparr>
   = (mk_response 400 (Message (lit ''Missing query'')), sample_query_world) \<and>
   query_handler sample_env sample_query_world \<lparr>httpMethod = None, ev_body = JUndefined\<rparr>
   = (mk_response 400 (Message (lit ''Missing query'')), sample_query_world) \<and>
   api_calls sample_query_world = []"
proof -
  let ?e1 = "\<lparr>httpMethod = Some (lit ''POST''),
              ev_body = JObject [(lit ''query'', JString (lit ''  ''))]\<rparr>"
  let ?e2 = "\<lparr>httpMethod = None, ev_body = JUndefined\<rparr>"
  let ?b1 = "parseBody (json_parse sample_query_world) (ev_body ?e1)"
  let ?b2 = "parseBody (json_parse sample_query_world) (ev_body ?e2)"
  have b1: "?b1 = JObject [(lit ''query'', JString (lit ''  ''))]"
    by (simp add: parseBody_def js_falsy_def)
  have b2: "?b2 = JObject []"
    by (simp add: parseBody_def js_falsy_def)
  have n1: "?b1 \<noteq> JNull" "?b1 \<noteq> JUndefined" unfolding b1 by simp_all
  have n2: "?b2 \<noteq> JNull" "?b2 \<noteq> JUndefined" unfolding b2 by simp_all
  have q1: "query_member ?b1 = None \<or>
            (\<exists>s. query_member ?b1 = Some (JString s) \<and> js_trim s = [])"
    unfolding b1 by (simp add: query_member_def js_trim_def is_js_whitespace_def lit_def)
  have q2: "query_member ?b2 = None \<or>
            (\<exists>s. query_member ?b2 = Some (JString s) \<and> js_trim s = [])"
    unfolding b2 by (simp add: query_member_def)
  from query_handler_empty_query[OF n1 q1, of sample_env]
       query_handler_empty_query[OF n2 q2, of sample_env]
  show ?thesis
    by (simp add: sample_env_def js_missing_def lit_def) (simp add: sample_query_world_def)
qed

end
